theory Spec2Isabelle
  imports Main
begin

section \<open>The relay's tables\<close>

text \<open>
  The server of \<^verbatim>\<open>backend/server/server.go\<close> keeps no state of its own: every
  handler reads and writes the tables of \<^verbatim>\<open>GLOBAL_DB\<close>. A table is modelled as the
  list of its rows in insertion order (no table of the relay has a primary key, so equal
  rows may occur more than once), a \<^verbatim>\<open>time.Time\<close> as an integer timestamp, and a
  counter column as an unbounded integer. A handler takes the decoded body of its request
  and the values of its query parameters, and reads the clock once.
\<close>

text \<open>
  Modelled from the spec: \<^verbatim>\<open>shared.EncHistoryEntry\<close> is declared in the package
  \<^verbatim>\<open>shared\<close>; the columns are those the handlers name (\<^verbatim>\<open>user_id\<close>,
  \<^verbatim>\<open>device_id\<close>, \<^verbatim>\<open>date\<close>, \<^verbatim>\<open>read_count\<close>) together with the opaque
  payload and the entry id of the spec's HistoryEntryRecord.
\<close>

record EncHistoryEntry =
  e_enc_data :: string
  e_device_id :: string
  e_user_id :: string
  e_date :: int
  e_encrypted_id :: string
  e_read_count :: int

text \<open>
  Modelled from the spec: \<^verbatim>\<open>shared.Device\<close>, with the four fields the register handler
  fills in. The table has no uniqueness constraint: the registry is additive.
\<close>

record Device =
  d_user_id :: string
  d_device_id :: string
  d_registration_ip :: string
  d_registration_date :: int

text \<open>\<^verbatim>\<open>UsageData\<close> is declared in \<^verbatim>\<open>server.go\<close> itself.\<close>

record UsageData =
  u_user_id :: string
  u_device_id :: string
  u_last_used :: int
  u_num_entries_handled :: int

text \<open>Modelled from the spec: \<^verbatim>\<open>shared.DumpRequest\<close>.\<close>

record DumpRequest =
  dr_user_id :: string
  dr_requesting_device_id :: string
  dr_request_time :: int

text \<open>
  Modelled from the spec: \<^verbatim>\<open>shared.MessageIdentifier\<close> and
  \<^verbatim>\<open>shared.DeletionRequest\<close>. The server reads \<^verbatim>\<open>message.DeviceId\<close> and
  \<^verbatim>\<open>message.Date\<close> of each element of \<^verbatim>\<open>request.Messages.Ids\<close>.
\<close>

record MessageIdentifier =
  m_device_id :: string
  m_date :: int
  m_entry_id :: string

record DeletionRequest =
  del_user_id :: string
  del_destination_device_id :: string
  del_send_time :: int
  del_messages :: "MessageIdentifier list"
  del_read_count :: int

record db =
  enc_history_entries :: "EncHistoryEntry list"
  devices :: "Device list"
  usage_data :: "UsageData list"
  dump_requests :: "DumpRequest list"
  deletion_requests :: "DeletionRequest list"

definition empty_db :: db where
  "empty_db = \<lparr>enc_history_entries = [], devices = [], usage_data = [],
               dump_requests = [], deletion_requests = []\<rparr>"

text \<open>
  A handler that panics aborts the request; what it wrote to the store before the panic
  stays written (only the dump submission runs in a transaction). A handler therefore
  returns the store it leaves behind together with either the error it panicked with or
  its response. The branches on \<^verbatim>\<open>result.Error\<close> are failures of the store itself.
  The tables of the model accept every insert, select and delete; the one statement that
  the store refuses on well-formed rows is an \<^verbatim>\<open>UPDATE\<close> that takes a counter beyond
  the column's range, and that failure is a branch of the model (see
  \<open>increment_read_count\<close> below).
\<close>

datatype error =
    MissingQueryParam string
  | NoDevicesFound string
  | BatchUserMismatch string string
  | CannotDecrementUnknown
  | InvalidVersion string
  | RetrieveFailed string string
  | NotFound404 string
  | BigintOutOfRange

type_synonym 'a outcome = "db \<times> (error + 'a)"

section \<open>Request parameters and telemetry\<close>

text \<open>
  \<^verbatim>\<open>getRequiredQueryParam\<close> reads \<^verbatim>\<open>r.URL.Query().Get(queryParam)\<close>, which is the
  empty string when the parameter is absent, and panics on the empty string. The first
  argument is the value read from the URL.
\<close>

definition getRequiredQueryParam :: "string \<Rightarrow> string \<Rightarrow> error + string" where
  "getRequiredQueryParam val queryParam =
     (if val = [] then Inl (MissingQueryParam queryParam) else Inr val)"

text \<open>
  \<^verbatim>\<open>updateUsageData\<close>: insert the row of (user, device) when there is none, otherwise
  set \<^verbatim>\<open>last_used\<close> and, for a positive \<^verbatim>\<open>numEntries\<close>, add it to
  \<^verbatim>\<open>num_entries_handled\<close>. The argument \<open>now\<close> is the value of \<^verbatim>\<open>time.Now()\<close>.
\<close>

definition updateUsageData :: "string \<Rightarrow> string \<Rightarrow> int \<Rightarrow> int \<Rightarrow> db \<Rightarrow> db" where
  "updateUsageData userId deviceId numEntries now s =
     (let usageData = filter (\<lambda>u. u_user_id u = userId \<and> u_device_id u = deviceId) (usage_data s)
      in if length usageData = 0 then
           s\<lparr>usage_data := usage_data s @
               [\<lparr>u_user_id = userId, u_device_id = deviceId, u_last_used = now,
                 u_num_entries_handled = numEntries\<rparr>]\<rparr>
         else
           (let s1 = s\<lparr>usage_data :=
                        map (\<lambda>u. if u_user_id u = userId \<and> u_device_id u = deviceId
                                 then u\<lparr>u_last_used := now\<rparr> else u) (usage_data s)\<rparr>
            in if numEntries > 0 then
                 s1\<lparr>usage_data :=
                      map (\<lambda>u. if u_user_id u = userId \<and> u_device_id u = deviceId
                               then u\<lparr>u_num_entries_handled := u_num_entries_handled u + numEntries\<rparr>
                               else u) (usage_data s1)\<rparr>
               else s1))"

section \<open>Submission and delivery\<close>

definition create_entry :: "EncHistoryEntry \<Rightarrow> db \<Rightarrow> db" where
  "create_entry entry s = s\<lparr>enc_history_entries := enc_history_entries s @ [entry]\<rparr>"

text \<open>
  The inner loop of \<^verbatim>\<open>apiSubmitHandler\<close>: for each Device row found,
  \<^verbatim>\<open>entry.DeviceId = device.DeviceId\<close> and \<^verbatim>\<open>GLOBAL_DB.Create(&entry)\<close>.
\<close>

fun submit_devices :: "EncHistoryEntry \<Rightarrow> Device list \<Rightarrow> db \<Rightarrow> db" where
  "submit_devices entry [] s = s"
| "submit_devices entry (device # rest) s =
     submit_devices (entry\<lparr>e_device_id := d_device_id device\<rparr>) rest
       (create_entry (entry\<lparr>e_device_id := d_device_id device\<rparr>) s)"

text \<open>
  \<^verbatim>\<open>apiSubmitHandler\<close>, on the decoded body. Each entry is handled in turn, outside any
  transaction: telemetry for the entry's own (user, device), the Device rows of the
  entry's user, a panic when there are none, one insert per Device row otherwise.
\<close>

fun apiSubmitHandler :: "int \<Rightarrow> EncHistoryEntry list \<Rightarrow> db \<Rightarrow> unit outcome" where
  "apiSubmitHandler now [] s = (s, Inr ())"
| "apiSubmitHandler now (entry # rest) s =
     (let s1 = updateUsageData (e_user_id entry) (e_device_id entry) 1 now s;
          devs = filter (\<lambda>d. d_user_id d = e_user_id entry) (devices s1)
      in if length devs = 0 then (s1, Inl (NoDevicesFound (e_user_id entry)))
         else apiSubmitHandler now rest (submit_devices entry devs s1))"

definition apiBootstrapHandler ::
  "string \<Rightarrow> string \<Rightarrow> int \<Rightarrow> db \<Rightarrow> EncHistoryEntry list outcome" where
  "apiBootstrapHandler user_id device_id now s =
     (case getRequiredQueryParam user_id ''user_id'' of
        Inl err \<Rightarrow> (s, Inl err)
      | Inr userId \<Rightarrow>
     (case getRequiredQueryParam device_id ''device_id'' of
        Inl err \<Rightarrow> (s, Inl err)
      | Inr deviceId \<Rightarrow>
          (let s1 = updateUsageData userId deviceId 0 now s;
               historyEntries = filter (\<lambda>r. e_user_id r = userId) (enc_history_entries s1)
           in (s1, Inr historyEntries))))"

section \<open>Deletion requests\<close>

text \<open>
  \<^verbatim>\<open>applyDeletionRequestsToBackend\<close> builds the condition \<^verbatim>\<open>false OR (user_id = ? AND
  device_id = ? AND date = ?) OR ...\<close>, one disjunct per message with the request's user
  id and the message's device id and date, and deletes the entry rows that satisfy it.
  It returns the number of rows deleted.
\<close>

definition message_where :: "string \<Rightarrow> MessageIdentifier \<Rightarrow> EncHistoryEntry \<Rightarrow> bool" where
  "message_where userId message r =
     (e_user_id r = userId \<and> e_device_id r = m_device_id message \<and> e_date r = m_date message)"

definition deletion_where :: "DeletionRequest \<Rightarrow> EncHistoryEntry \<Rightarrow> bool" where
  "deletion_where request r =
     foldl (\<lambda>tx message. tx \<or> message_where (del_user_id request) message r)
       False (del_messages request)"

definition applyDeletionRequestsToBackend :: "DeletionRequest \<Rightarrow> db \<Rightarrow> db \<times> int" where
  "applyDeletionRequestsToBackend request s =
     (s\<lparr>enc_history_entries :=
          filter (\<lambda>r. \<not> deletion_where request r) (enc_history_entries s)\<rparr>,
      int (length (filter (deletion_where request) (enc_history_entries s))))"

text \<open>
  The fan-out loop of \<^verbatim>\<open>addDeletionRequestHandler\<close>: the request is stored once per
  Device row with \<^verbatim>\<open>DestinationDeviceId\<close> set to the row's device.
\<close>

fun add_deletion_devices :: "DeletionRequest \<Rightarrow> Device list \<Rightarrow> db \<Rightarrow> DeletionRequest \<times> db" where
  "add_deletion_devices request [] s = (request, s)"
| "add_deletion_devices request (device # rest) s =
     (let request1 = request\<lparr>del_destination_device_id := d_device_id device\<rparr>
      in add_deletion_devices request1 rest
           (s\<lparr>deletion_requests := deletion_requests s @ [request1]\<rparr>))"

definition addDeletionRequestHandler :: "DeletionRequest \<Rightarrow> db \<Rightarrow> unit outcome" where
  "addDeletionRequestHandler body s =
     (let request = body\<lparr>del_read_count := 0\<rparr>;
          devs = filter (\<lambda>d. d_user_id d = del_user_id request) (devices s)
      in if length devs = 0 then (s, Inl (NoDevicesFound (del_user_id request)))
         else (case add_deletion_devices request devs s of
                 (request1, s1) \<Rightarrow>
                   (case applyDeletionRequestsToBackend request1 s1 of
                      (s2, numDeleted) \<Rightarrow> (s2, Inr ()))))"

text \<open>
  The counters. \<^verbatim>\<open>ReadCount\<close> is a Go \<^verbatim>\<open>int\<close>, stored by the production store
  (\<^verbatim>\<open>OpenDB\<close> opens Postgres outside a test environment) in a \<^verbatim>\<open>bigint\<close>
  column, whose greatest value is \<^verbatim>\<open>2^63 - 1\<close>. The statement
  \<^verbatim>\<open>UPDATE ... SET read_count = read_count + 1 WHERE ...\<close> fails as a whole, with no
  row changed, when it would take a row it matches beyond that value; the handler then
  panics with \<^verbatim>\<open>result.Error\<close>. A client chooses the \<^verbatim>\<open>read_count\<close> of the entries
  it submits, so such a row can be stored. The in-memory store of the test environment
  does not fail there (the column changes its type instead); the model follows the
  production store.
\<close>

definition max_bigint :: int where
  "max_bigint = 9223372036854775807"

definition increment_read_count :: "string \<Rightarrow> db \<Rightarrow> error + db" where
  "increment_read_count deviceId s =
     (if list_ex (\<lambda>r. e_device_id r = deviceId \<and> e_read_count r + 1 > max_bigint)
           (enc_history_entries s)
      then Inl BigintOutOfRange
      else Inr (s\<lparr>enc_history_entries :=
                    map (\<lambda>r. if e_device_id r = deviceId
                             then r\<lparr>e_read_count := e_read_count r + 1\<rparr> else r)
                        (enc_history_entries s)\<rparr>))"

definition increment_deletion_read_count :: "string \<Rightarrow> string \<Rightarrow> db \<Rightarrow> error + db" where
  "increment_deletion_read_count deviceId userId s =
     (if list_ex (\<lambda>q. del_destination_device_id q = deviceId \<and> del_user_id q = userId
                      \<and> del_read_count q + 1 > max_bigint)
           (deletion_requests s)
      then Inl BigintOutOfRange
      else Inr (s\<lparr>deletion_requests :=
                    map (\<lambda>q. if del_destination_device_id q = deviceId \<and> del_user_id q = userId
                             then q\<lparr>del_read_count := del_read_count q + 1\<rparr> else q)
                        (deletion_requests s)\<rparr>))"

definition getDeletionRequestsHandler ::
  "string \<Rightarrow> string \<Rightarrow> db \<Rightarrow> DeletionRequest list outcome" where
  "getDeletionRequestsHandler user_id device_id s =
     (case getRequiredQueryParam user_id ''user_id'' of
        Inl err \<Rightarrow> (s, Inl err)
      | Inr userId \<Rightarrow>
     (case getRequiredQueryParam device_id ''device_id'' of
        Inl err \<Rightarrow> (s, Inl err)
      | Inr deviceId \<Rightarrow>
          (case increment_deletion_read_count deviceId userId s of
             Inl err \<Rightarrow> (s, Inl err)
           | Inr s1 \<Rightarrow>
               (let deletionRequests =
                      filter (\<lambda>q. del_user_id q = userId \<and> del_destination_device_id q = deviceId)
                             (deletion_requests s1)
                in (s1, Inr deletionRequests)))))"

text \<open>
  \<^verbatim>\<open>apiQueryHandler\<close>: telemetry, then the increment of \<^verbatim>\<open>read_count\<close> on the rows
  with the given \<^verbatim>\<open>device_id\<close> and a panic when the store refuses it, then the
  deletion requests stored for (device, user) applied one after the other, then the rows
  of the device with \<^verbatim>\<open>read_count < 5\<close>.
\<close>

definition apiQueryHandler ::
  "string \<Rightarrow> string \<Rightarrow> int \<Rightarrow> db \<Rightarrow> EncHistoryEntry list outcome" where
  "apiQueryHandler user_id device_id now s =
     (case getRequiredQueryParam user_id ''user_id'' of
        Inl err \<Rightarrow> (s, Inl err)
      | Inr userId \<Rightarrow>
     (case getRequiredQueryParam device_id ''device_id'' of
        Inl err \<Rightarrow> (s, Inl err)
      | Inr deviceId \<Rightarrow>
          (let s1 = updateUsageData userId deviceId 0 now s
           in (case increment_read_count deviceId s1 of
                 Inl err \<Rightarrow> (s1, Inl err)
               | Inr s2 \<Rightarrow>
                   (let deletionRequests =
                          filter (\<lambda>q. del_destination_device_id q = deviceId
                                      \<and> del_user_id q = userId)
                                 (deletion_requests s2);
                        s3 = foldl (\<lambda>t request. fst (applyDeletionRequestsToBackend request t))
                               s2 deletionRequests;
                        historyEntries =
                          filter (\<lambda>r. e_device_id r = deviceId \<and> e_read_count r < 5)
                                 (enc_history_entries s3)
                    in (s3, Inr historyEntries))))))"

definition wipeDbHandler :: "db \<Rightarrow> unit outcome" where
  "wipeDbHandler s = (s\<lparr>enc_history_entries := []\<rparr>, Inr ())"

section \<open>Registration and the dump exchange\<close>

text \<open>
  \<^verbatim>\<open>apiRegisterHandler\<close>: the count of the user's Device rows is taken first, the new
  Device row is created whatever the count, and a DumpRequest is created when the count
  was positive. The results of both \<^verbatim>\<open>Create\<close> calls are ignored by the handler.
\<close>

definition apiRegisterHandler ::
  "string \<Rightarrow> string \<Rightarrow> string \<Rightarrow> int \<Rightarrow> db \<Rightarrow> unit outcome" where
  "apiRegisterHandler user_id device_id remoteAddr now s =
     (case getRequiredQueryParam user_id ''user_id'' of
        Inl err \<Rightarrow> (s, Inl err)
      | Inr userId \<Rightarrow>
     (case getRequiredQueryParam device_id ''device_id'' of
        Inl err \<Rightarrow> (s, Inl err)
      | Inr deviceId \<Rightarrow>
          (let existingDevicesCount =
                 int (length (filter (\<lambda>d. d_user_id d = userId) (devices s)));
               s1 = s\<lparr>devices := devices s @
                      [\<lparr>d_user_id = userId, d_device_id = deviceId,
                        d_registration_ip = remoteAddr, d_registration_date = now\<rparr>]\<rparr>;
               s2 = (if existingDevicesCount > 0 then
                       s1\<lparr>dump_requests := dump_requests s1 @
                            [\<lparr>dr_user_id = userId, dr_requesting_device_id = deviceId,
                              dr_request_time = now\<rparr>]\<rparr>
                     else s1)
           in (updateUsageData userId deviceId 0 now s2, Inr ()))))"

definition apiGetPendingDumpRequestsHandler ::
  "string \<Rightarrow> string \<Rightarrow> db \<Rightarrow> DumpRequest list outcome" where
  "apiGetPendingDumpRequestsHandler user_id device_id s =
     (case getRequiredQueryParam user_id ''user_id'' of
        Inl err \<Rightarrow> (s, Inl err)
      | Inr userId \<Rightarrow>
     (case getRequiredQueryParam device_id ''device_id'' of
        Inl err \<Rightarrow> (s, Inl err)
      | Inr deviceId \<Rightarrow>
          (s, Inr (filter (\<lambda>q. dr_user_id q = userId \<and> dr_requesting_device_id q \<noteq> deviceId)
                          (dump_requests s)))))"

text \<open>
  The body of the transaction of \<^verbatim>\<open>apiSubmitDumpHandler\<close>: the entry's device id is
  overwritten first, then its user id is compared with the query parameter, then the
  entry is created. \<^verbatim>\<open>Transaction\<close> commits the store the body returns, or keeps the
  store it started from when the body returns an error.
\<close>

fun submit_dump_entries :: "string \<Rightarrow> string \<Rightarrow> EncHistoryEntry list \<Rightarrow> db \<Rightarrow> error + db" where
  "submit_dump_entries userId requestingDeviceId [] tx = Inr tx"
| "submit_dump_entries userId requestingDeviceId (entry # rest) tx =
     (let entry1 = entry\<lparr>e_device_id := requestingDeviceId\<rparr>
      in if e_user_id entry1 \<noteq> userId then Inl (BatchUserMismatch (e_user_id entry1) userId)
         else submit_dump_entries userId requestingDeviceId rest (create_entry entry1 tx))"

definition Transaction :: "(db \<Rightarrow> error + db) \<Rightarrow> db \<Rightarrow> db \<times> error option" where
  "Transaction body s = (case body s of Inl err \<Rightarrow> (s, Some err) | Inr s1 \<Rightarrow> (s1, None))"

definition apiSubmitDumpHandler ::
  "string \<Rightarrow> string \<Rightarrow> string \<Rightarrow> EncHistoryEntry list \<Rightarrow> int \<Rightarrow> db \<Rightarrow> unit outcome" where
  "apiSubmitDumpHandler user_id source_device_id requesting_device_id entries now s =
     (case getRequiredQueryParam user_id ''user_id'' of
        Inl err \<Rightarrow> (s, Inl err)
      | Inr userId \<Rightarrow>
     (case getRequiredQueryParam source_device_id ''source_device_id'' of
        Inl err \<Rightarrow> (s, Inl err)
      | Inr srcDeviceId \<Rightarrow>
     (case getRequiredQueryParam requesting_device_id ''requesting_device_id'' of
        Inl err \<Rightarrow> (s, Inl err)
      | Inr requestingDeviceId \<Rightarrow>
          (case Transaction (submit_dump_entries userId requestingDeviceId entries) s of
             (s1, Some err) \<Rightarrow> (s1, Inl err)
           | (s1, None) \<Rightarrow>
               (let s2 = s1\<lparr>dump_requests :=
                            filter (\<lambda>q. \<not> (dr_user_id q = userId
                                            \<and> dr_requesting_device_id q = requestingDeviceId))
                                   (dump_requests s1)\<rparr>
                in (updateUsageData userId srcDeviceId (int (length entries)) now s2,
                    Inr ()))))))"

section \<open>The release resolver\<close>

text \<open>
  \<^verbatim>\<open>strings.Split(version, ".")\<close>: the pieces between the separators; a string
  without separator is its own single piece.
\<close>

fun split_on :: "char \<Rightarrow> string \<Rightarrow> string list" where
  "split_on c [] = [[]]"
| "split_on c (x # xs) =
     (if x = c then [] # split_on c xs
      else (case split_on c xs of [] \<Rightarrow> [[x]] | p # ps \<Rightarrow> (x # p) # ps))"

text \<open>
  \<^verbatim>\<open>strconv.Atoi\<close>: an optional sign, then at least one decimal digit and nothing
  else, and a value that fits the 64-bit \<^verbatim>\<open>int\<close>; \<open>None\<close> is the error.
\<close>

definition digit_value :: "char \<Rightarrow> nat option" where
  "digit_value c =
     (let n = (of_char c :: nat) in if 48 \<le> n \<and> n \<le> 57 then Some (n - 48) else None)"

fun parse_digits :: "nat \<Rightarrow> string \<Rightarrow> nat option" where
  "parse_digits acc [] = Some acc"
| "parse_digits acc (c # cs) =
     (case digit_value c of None \<Rightarrow> None | Some d \<Rightarrow> parse_digits (acc * 10 + d) cs)"

definition Atoi :: "string \<Rightarrow> int option" where
  "Atoi s =
     (let neg = (case s of [] \<Rightarrow> False | c # cs \<Rightarrow> c = CHR ''-'');
          ds = (case s of [] \<Rightarrow> [] | c # cs \<Rightarrow> if c = CHR ''-'' \<or> c = CHR ''+'' then cs else s)
      in if ds = [] then None
         else (case parse_digits 0 ds of
                 None \<Rightarrow> None
               | Some n \<Rightarrow>
                   (let v = (if neg then - int n else int n)
                    in if - (2 ^ 63) \<le> v \<and> v < 2 ^ 63 then Some v else None)))"

text \<open>\<^verbatim>\<open>strconv.Itoa\<close>: the decimal digits, after a minus sign for a negative number.\<close>

definition digit_char :: "nat \<Rightarrow> char" where
  "digit_char d = ''0123456789'' ! d"

function decimal :: "nat \<Rightarrow> string" where
  "decimal n = (if n < 10 then [digit_char n] else decimal (n div 10) @ [digit_char (n mod 10)])"
  by pat_completeness auto
termination
  by (relation "measure (\<lambda>n. n)") auto

declare decimal.simps [simp del]

definition Itoa :: "int \<Rightarrow> string" where
  "Itoa i = (if i < 0 then CHR ''-'' # decimal (nat (- i)) else decimal (nat i))"

text \<open>\<^verbatim>\<open>versionNumber-1\<close> on Go's 64-bit \<^verbatim>\<open>int\<close>, which wraps below the least value.\<close>

definition minus_one_int64 :: "int \<Rightarrow> int" where
  "minus_one_int64 v = (if v - 1 < - (2 ^ 63) then v - 1 + 2 ^ 64 else v - 1)"

definition decrementVersion :: "string \<Rightarrow> error + string" where
  "decrementVersion version =
     (if version = ''UNKNOWN'' then Inl CannotDecrementUnknown
      else (let parts = split_on CHR ''.'' version
            in if length parts \<noteq> 2 then Inl (InvalidVersion version)
               else (case Atoi (parts ! 1) of
                       None \<Rightarrow> Inl (InvalidVersion version)
                     | Some versionNumber \<Rightarrow>
                         Inr (parts ! 0 @ ''.'' @ Itoa (minus_one_int64 versionNumber)))))"

text \<open>
  Modelled from the spec: \<^verbatim>\<open>shared.UpdateInfo\<close>, the download manifest, with the
  fields \<^verbatim>\<open>buildUpdateInfo\<close> fills in.
\<close>

record UpdateInfo =
  LinuxAmd64Url :: string
  LinuxAmd64AttestationUrl :: string
  DarwinAmd64Url :: string
  DarwinAmd64UnsignedUrl :: string
  DarwinAmd64AttestationUrl :: string
  DarwinArm64Url :: string
  DarwinArm64UnsignedUrl :: string
  DarwinArm64AttestationUrl :: string
  Version :: string

definition release_url :: "string \<Rightarrow> string \<Rightarrow> string" where
  "release_url version artifact =
     ''https://github.com/ddworken/hishtory/releases/download/'' @ version @ ''/'' @ artifact"

definition buildUpdateInfo :: "string \<Rightarrow> UpdateInfo" where
  "buildUpdateInfo version =
     \<lparr>LinuxAmd64Url = release_url version ''hishtory-linux-amd64'',
      LinuxAmd64AttestationUrl = release_url version ''hishtory-linux-amd64.intoto.jsonl'',
      DarwinAmd64Url = release_url version ''hishtory-darwin-amd64'',
      DarwinAmd64UnsignedUrl = release_url version ''hishtory-darwin-amd64-unsigned'',
      DarwinAmd64AttestationUrl = release_url version ''hishtory-darwin-amd64.intoto.jsonl'',
      DarwinArm64Url = release_url version ''hishtory-darwin-arm64'',
      DarwinArm64UnsignedUrl = release_url version ''hishtory-darwin-arm64-unsigned'',
      DarwinArm64AttestationUrl = release_url version ''hishtory-darwin-arm64.intoto.jsonl'',
      Version = version\<rparr>"

text \<open>
  The network is an oracle: \<^verbatim>\<open>http.Get(url)\<close> gives a transport error (\<open>Inl\<close>) or
  the status code of the response (\<open>Inr\<close>). \<^verbatim>\<open>assertValidUpdate\<close> probes the eight
  artifact urls in order and returns the first failure, \<open>None\<close> for \<^verbatim>\<open>nil\<close>.
\<close>

type_synonym http = "string \<Rightarrow> string + nat"

fun assert_urls :: "http \<Rightarrow> string list \<Rightarrow> error option" where
  "assert_urls get [] = None"
| "assert_urls get (url # rest) =
     (case get url of
        Inl err \<Rightarrow> Some (RetrieveFailed url err)
      | Inr statusCode \<Rightarrow> if statusCode = 404 then Some (NotFound404 url)
                         else assert_urls get rest)"

definition assertValidUpdate :: "http \<Rightarrow> UpdateInfo \<Rightarrow> error option" where
  "assertValidUpdate get updateInfo =
     assert_urls get
       [LinuxAmd64Url updateInfo, LinuxAmd64AttestationUrl updateInfo,
        DarwinAmd64Url updateInfo, DarwinAmd64UnsignedUrl updateInfo,
        DarwinAmd64AttestationUrl updateInfo,
        DarwinArm64Url updateInfo, DarwinArm64UnsignedUrl updateInfo,
        DarwinArm64AttestationUrl updateInfo]"

text \<open>
  The loop \<^verbatim>\<open>for i := 0; i < 5; i++\<close> of \<^verbatim>\<open>decrementVersionIfInvalid\<close>; the
  numeric argument is the number of iterations left.
\<close>

fun decrement_loop :: "http \<Rightarrow> string \<Rightarrow> nat \<Rightarrow> string \<Rightarrow> string" where
  "decrement_loop get initialVersion 0 version = initialVersion"
| "decrement_loop get initialVersion (Suc n) version =
     (case assertValidUpdate get (buildUpdateInfo version) of
        None \<Rightarrow> version
      | Some err \<Rightarrow>
          (case decrementVersion version of
             Inl err1 \<Rightarrow> initialVersion
           | Inr version1 \<Rightarrow> decrement_loop get initialVersion n version1))"

definition decrementVersionIfInvalid :: "http \<Rightarrow> string \<Rightarrow> string" where
  "decrementVersionIfInvalid get initialVersion =
     decrement_loop get initialVersion 5 initialVersion"

section \<open>The janitor\<close>

text \<open>
  \<^verbatim>\<open>cleanDatabase\<close> runs two statements,
  \<^verbatim>\<open>DELETE FROM enc_history_entries WHERE read_count > 10\<close> and
  \<^verbatim>\<open>DELETE FROM deletion_requests WHERE read_count > 100\<close>, and returns \<^verbatim>\<open>nil\<close>.
\<close>

definition cleanDatabase :: "db \<Rightarrow> db \<times> error option" where
  "cleanDatabase s =
     (let s1 = s\<lparr>enc_history_entries :=
                   filter (\<lambda>r. \<not> e_read_count r > 10) (enc_history_entries s)\<rparr>;
          s2 = s1\<lparr>deletion_requests :=
                   filter (\<lambda>q. \<not> del_read_count q > 100) (deletion_requests s1)\<rparr>
      in (s2, None))"

section \<open>Requests in sequence\<close>

text \<open>
  The endpoints that touch the store, as \<^verbatim>\<open>main\<close> registers them
  (\<^verbatim>\<open>wipe-db\<close> in a test environment only), with the values each handler reads
  from its request; \<open>TriggerCron\<close> stands for the store's part of \<^verbatim>\<open>cron\<close>,
  which is \<^verbatim>\<open>cleanDatabase\<close>. \<open>handle\<close> gives the store a request leaves
  behind, whether it panicked or not, and \<open>serve\<close> runs requests one after the other.
\<close>

datatype request =
    Submit int "EncHistoryEntry list"
  | Bootstrap string string int
  | Query string string int
  | Register string string string int
  | GetDumpRequests string string
  | SubmitDump string string string "EncHistoryEntry list" int
  | AddDeletionRequest DeletionRequest
  | GetDeletionRequests string string
  | TriggerCron
  | WipeDb

fun handle :: "request \<Rightarrow> db \<Rightarrow> db" where
  "handle (Submit now entries) s = fst (apiSubmitHandler now entries s)"
| "handle (Bootstrap user_id device_id now) s = fst (apiBootstrapHandler user_id device_id now s)"
| "handle (Query user_id device_id now) s = fst (apiQueryHandler user_id device_id now s)"
| "handle (Register user_id device_id remoteAddr now) s =
     fst (apiRegisterHandler user_id device_id remoteAddr now s)"
| "handle (GetDumpRequests user_id device_id) s =
     fst (apiGetPendingDumpRequestsHandler user_id device_id s)"
| "handle (SubmitDump user_id source_device_id requesting_device_id entries now) s =
     fst (apiSubmitDumpHandler user_id source_device_id requesting_device_id entries now s)"
| "handle (AddDeletionRequest body) s = fst (addDeletionRequestHandler body s)"
| "handle (GetDeletionRequests user_id device_id) s =
     fst (getDeletionRequestsHandler user_id device_id s)"
| "handle TriggerCron s = fst (cleanDatabase s)"
| "handle WipeDb s = fst (wipeDbHandler s)"

definition serve :: "request list \<Rightarrow> db \<Rightarrow> db" where
  "serve requests s = foldl (\<lambda>t rq. handle rq t) s requests"

fun registers :: "string \<Rightarrow> string \<Rightarrow> request \<Rightarrow> bool" where
  "registers userId deviceId (Register user_id device_id remoteAddr now) =
     (user_id = userId \<and> device_id = deviceId)"
| "registers userId deviceId rq = False"

section \<open>Notions used in the statements\<close>

text \<open>The Device rows of a user, and the rows one entry is fanned out to.\<close>

definition user_devices :: "db \<Rightarrow> string \<Rightarrow> Device list" where
  "user_devices s userId = filter (\<lambda>d. d_user_id d = userId) (devices s)"

definition fan_out :: "db \<Rightarrow> EncHistoryEntry \<Rightarrow> EncHistoryEntry list" where
  "fan_out s entry =
     map (\<lambda>d. entry\<lparr>e_device_id := d_device_id d\<rparr>) (user_devices s (e_user_id entry))"

text \<open>
  The artifacts of a release, in the order \<^verbatim>\<open>assertValidUpdate\<close> probes them, and
  the versions the loop of \<^verbatim>\<open>decrementVersionIfInvalid\<close> can come to probe in a
  given number of iterations: the version itself, then its decrements for as long as
  \<^verbatim>\<open>decrementVersion\<close> succeeds.
\<close>

definition artifacts :: "string list" where
  "artifacts =
     [''hishtory-linux-amd64'', ''hishtory-linux-amd64.intoto.jsonl'',
      ''hishtory-darwin-amd64'', ''hishtory-darwin-amd64-unsigned'',
      ''hishtory-darwin-amd64.intoto.jsonl'',
      ''hishtory-darwin-arm64'', ''hishtory-darwin-arm64-unsigned'',
      ''hishtory-darwin-arm64.intoto.jsonl'']"

fun candidates :: "nat \<Rightarrow> string \<Rightarrow> string list" where
  "candidates 0 version = []"
| "candidates (Suc n) version =
     version # (case decrementVersion version of Inl err \<Rightarrow> [] | Inr version1 \<Rightarrow> candidates n version1)"

text \<open>The rows of a device's mailbox, and the dump requests of a (user, device) pair.\<close>

definition mailbox :: "db \<Rightarrow> string \<Rightarrow> EncHistoryEntry list" where
  "mailbox s deviceId = filter (\<lambda>r. e_device_id r = deviceId) (enc_history_entries s)"

definition dump_requests_for :: "db \<Rightarrow> string \<Rightarrow> string \<Rightarrow> DumpRequest list" where
  "dump_requests_for s userId deviceId =
     filter (\<lambda>q. dr_user_id q = userId \<and> dr_requesting_device_id q = deviceId) (dump_requests s)"

text \<open>
  A row is named by a request when one of the request's messages carries the row's
  device id and date and the request carries the row's user id; it is pending deletion
  for a poll of (user, device) when a stored request for that pair names it.
\<close>

definition named_by :: "DeletionRequest \<Rightarrow> EncHistoryEntry \<Rightarrow> bool" where
  "named_by request r =
     list_ex (\<lambda>m. e_user_id r = del_user_id request \<and> e_device_id r = m_device_id m
                  \<and> e_date r = m_date m) (del_messages request)"

definition pending_deletion :: "db \<Rightarrow> string \<Rightarrow> string \<Rightarrow> EncHistoryEntry \<Rightarrow> bool" where
  "pending_deletion s userId deviceId r =
     list_ex (\<lambda>q. del_destination_device_id q = deviceId \<and> del_user_id q = userId \<and> named_by q r)
       (deletion_requests s)"

definition increment_mailbox :: "string \<Rightarrow> EncHistoryEntry list \<Rightarrow> EncHistoryEntry list" where
  "increment_mailbox deviceId rows =
     map (\<lambda>r. if e_device_id r = deviceId then r\<lparr>e_read_count := e_read_count r + 1\<rparr> else r) rows"

text \<open>The store after a device has polled \<^verbatim>\<open>query\<close> once per element of a list of
  (user id, time) pairs.\<close>

fun query_polls :: "(string \<times> int) list \<Rightarrow> string \<Rightarrow> db \<Rightarrow> db" where
  "query_polls [] deviceId s = s"
| "query_polls ((userId, now) # polls) deviceId s =
     query_polls polls deviceId (fst (apiQueryHandler userId deviceId now s))"

section \<open>Example data\<close>

text \<open>An entry as a client submits it, and the stores of one user with three devices
  and of one user who registered the same device twice.\<close>

definition entry_at :: "string \<Rightarrow> string \<Rightarrow> int \<Rightarrow> EncHistoryEntry" where
  "entry_at userId deviceId t =
     \<lparr>e_enc_data = ''payload'', e_device_id = deviceId, e_user_id = userId, e_date = t,
      e_encrypted_id = ''id'', e_read_count = 0\<rparr>"

definition three_devices :: db where
  "three_devices =
     serve [Register ''u'' ''A'' ''10.0.0.1'' 1, Register ''u'' ''B'' ''10.0.0.2'' 2,
            Register ''u'' ''C'' ''10.0.0.3'' 3] empty_db"

definition registered_twice :: db where
  "registered_twice =
     serve [Register ''u'' ''A'' ''10.0.0.1'' 1, Register ''u'' ''A'' ''10.0.0.1'' 2] empty_db"

text \<open>The store after one entry of date 10 was submitted to the three devices, and a
  deletion request that names the messages of the given devices at the given date.\<close>

definition fanned_out :: db where
  "fanned_out = serve [Submit 5 [entry_at ''u'' ''A'' 10]] three_devices"

definition deletion_of :: "string \<Rightarrow> string list \<Rightarrow> int \<Rightarrow> DeletionRequest" where
  "deletion_of userId deviceIds t =
     \<lparr>del_user_id = userId, del_destination_device_id = [], del_send_time = t + 1,
      del_messages = map (\<lambda>d. \<lparr>m_device_id = d, m_date = t, m_entry_id = ''id''\<rparr>) deviceIds,
      del_read_count = 0\<rparr>"

text \<open>The store in which the entry of date 10 is submitted after a deletion request
  naming \<open>(A, 10)\<close> was added.\<close>

definition resubmitted :: db where
  "resubmitted =
     serve [AddDeletionRequest (deletion_of ''u'' [''A''] 10),
            Submit 5 [entry_at ''u'' ''A'' 10]] three_devices"

text \<open>A network on which the artifacts of \<open>v0.48\<close> are published and every other
  url answers 404, and one on which every url answers 404.\<close>

definition published_v048 :: http where
  "published_v048 url =
     (if url \<in> set (map (release_url ''v0.48'') artifacts) then Inr 200 else Inr 404)"

definition nothing_published :: http where
  "nothing_published url = Inr 404"

section \<open>What the handlers leave untouched\<close>

lemma updateUsageData_frame [simp]:
  "enc_history_entries (updateUsageData u d n now s) = enc_history_entries s"
  "devices (updateUsageData u d n now s) = devices s"
  "dump_requests (updateUsageData u d n now s) = dump_requests s"
  "deletion_requests (updateUsageData u d n now s) = deletion_requests s"
  by (simp_all add: updateUsageData_def Let_def)

lemma submit_devices_frame [simp]:
  "devices (submit_devices e devs s) = devices s"
  "usage_data (submit_devices e devs s) = usage_data s"
  "dump_requests (submit_devices e devs s) = dump_requests s"
  "deletion_requests (submit_devices e devs s) = deletion_requests s"
  by (induction devs arbitrary: e s; simp add: create_entry_def)+

lemma submit_devices_entries:
  "enc_history_entries (submit_devices e devs s)
     = enc_history_entries s @ map (\<lambda>d. e\<lparr>e_device_id := d_device_id d\<rparr>) devs"
  by (induction devs arbitrary: e s) (simp_all add: create_entry_def)

lemma user_devices_cong: "devices t = devices s \<Longrightarrow> user_devices t = user_devices s"
  by (simp add: user_devices_def fun_eq_iff)

lemma fan_out_cong: "devices t = devices s \<Longrightarrow> fan_out t = fan_out s"
  by (simp add: fan_out_def user_devices_def fun_eq_iff)

section \<open>Results on garbage collection\<close>

text \<open>
  C9 (janitor garbage-collection frame). One run of \<^verbatim>\<open>cleanDatabase\<close> succeeds and
  leaves a store whose entry rows are exactly the former rows with \<open>readCount \<le> 10\<close>
  and whose deletion requests are exactly the former ones with \<open>readCount \<le> 100\<close>, in
  their former order and multiplicity: the deleted rows are exactly those above the
  thresholds. The Device, UsageData and DumpRequest tables are the same as before.
\<close>

theorem cleanDatabase_frame:
  "snd (cleanDatabase s) = None
   \<and> enc_history_entries (fst (cleanDatabase s))
       = filter (\<lambda>r. e_read_count r \<le> 10) (enc_history_entries s)
   \<and> deletion_requests (fst (cleanDatabase s))
       = filter (\<lambda>q. del_read_count q \<le> 100) (deletion_requests s)
   \<and> devices (fst (cleanDatabase s)) = devices s
   \<and> usage_data (fst (cleanDatabase s)) = usage_data s
   \<and> dump_requests (fst (cleanDatabase s)) = dump_requests s"
  by (simp add: cleanDatabase_def Let_def not_less)

section \<open>Results on submission\<close>

lemma submit_step_empty:
  "user_devices s (e_user_id e) = [] \<Longrightarrow>
   apiSubmitHandler now (e # es) s
     = (updateUsageData (e_user_id e) (e_device_id e) 1 now s, Inl (NoDevicesFound (e_user_id e)))"
  by (simp add: Let_def user_devices_def)

lemma submit_step_devices:
  "user_devices s (e_user_id e) \<noteq> [] \<Longrightarrow>
   apiSubmitHandler now (e # es) s
     = apiSubmitHandler now es
         (submit_devices e (user_devices s (e_user_id e))
            (updateUsageData (e_user_id e) (e_device_id e) 1 now s))"
  by (simp add: Let_def user_devices_def)

lemma submit_frame:
  "devices (fst (apiSubmitHandler now es s)) = devices s
   \<and> dump_requests (fst (apiSubmitHandler now es s)) = dump_requests s
   \<and> deletion_requests (fst (apiSubmitHandler now es s)) = deletion_requests s"
  by (induction es arbitrary: s) (simp_all add: Let_def)

lemma submit_entries:
  "enc_history_entries (fst (apiSubmitHandler now es s))
     = enc_history_entries s
       @ concat (map (fan_out s) (takeWhile (\<lambda>e. user_devices s (e_user_id e) \<noteq> []) es))"
proof (induction es arbitrary: s)
  case Nil
  show ?case by simp
next
  case (Cons e es)
  let ?s2 = "submit_devices e (user_devices s (e_user_id e))
               (updateUsageData (e_user_id e) (e_device_id e) 1 now s)"
  show ?case
  proof (cases "user_devices s (e_user_id e) = []")
    case True
    then show ?thesis by (simp add: submit_step_empty del: apiSubmitHandler.simps)
  next
    case False
    have d2: "devices ?s2 = devices s" by simp
    have "enc_history_entries (fst (apiSubmitHandler now (e # es) s))
            = enc_history_entries (fst (apiSubmitHandler now es ?s2))"
      by (simp only: submit_step_devices [OF False])
    also have "\<dots> = enc_history_entries ?s2
          @ concat (map (fan_out ?s2) (takeWhile (\<lambda>e. user_devices ?s2 (e_user_id e) \<noteq> []) es))"
      by (rule Cons.IH)
    also have "\<dots> = enc_history_entries ?s2
          @ concat (map (fan_out s) (takeWhile (\<lambda>e. user_devices s (e_user_id e) \<noteq> []) es))"
      by (simp only: fan_out_cong [OF d2] user_devices_cong [OF d2])
    also have "enc_history_entries ?s2 = enc_history_entries s @ fan_out s e"
      by (simp add: submit_devices_entries fan_out_def)
    finally show ?thesis using False by simp
  qed
qed

lemma submit_result:
  "snd (apiSubmitHandler now es s)
     = (case dropWhile (\<lambda>e. user_devices s (e_user_id e) \<noteq> []) es of
          [] \<Rightarrow> Inr () | e # rest \<Rightarrow> Inl (NoDevicesFound (e_user_id e)))"
proof (induction es arbitrary: s)
  case Nil
  show ?case by simp
next
  case (Cons e es)
  let ?s2 = "submit_devices e (user_devices s (e_user_id e))
               (updateUsageData (e_user_id e) (e_device_id e) 1 now s)"
  show ?case
  proof (cases "user_devices s (e_user_id e) = []")
    case True
    then show ?thesis by (simp add: submit_step_empty del: apiSubmitHandler.simps)
  next
    case False
    have d2: "devices ?s2 = devices s" by simp
    have "snd (apiSubmitHandler now (e # es) s) = snd (apiSubmitHandler now es ?s2)"
      by (simp only: submit_step_devices [OF False])
    also have "\<dots> = (case dropWhile (\<lambda>e. user_devices ?s2 (e_user_id e) \<noteq> []) es of
          [] \<Rightarrow> Inr () | e # rest \<Rightarrow> Inl (NoDevicesFound (e_user_id e)))"
      by (rule Cons.IH)
    also have "\<dots> = (case dropWhile (\<lambda>e. user_devices s (e_user_id e) \<noteq> []) es of
          [] \<Rightarrow> Inr () | e # rest \<Rightarrow> Inl (NoDevicesFound (e_user_id e)))"
      by (simp only: user_devices_cong [OF d2])
    finally show ?thesis using False by simp
  qed
qed

declare apiSubmitHandler.simps [simp del]

lemma fan_out_user: "r \<in> set (fan_out s e) \<Longrightarrow> e_user_id r = e_user_id e"
  by (auto simp: fan_out_def)

lemma fan_out_mailbox:
  "filter (\<lambda>r. e_device_id r = dev) (fan_out s e)
     = replicate (length (filter (\<lambda>d. d_device_id d = dev) (user_devices s (e_user_id e))))
         (e\<lparr>e_device_id := dev\<rparr>)"
proof -
  have "filter (\<lambda>r. e_device_id r = dev) (map (\<lambda>d. e\<lparr>e_device_id := d_device_id d\<rparr>) ds)
          = replicate (length (filter (\<lambda>d. d_device_id d = dev) ds)) (e\<lparr>e_device_id := dev\<rparr>)"
    for ds :: "Device list"
    by (induction ds) simp_all
  then show ?thesis by (simp add: fan_out_def)
qed

lemma distinct_device_once:
  "distinct (map d_device_id ds) \<Longrightarrow> dev \<in> set (map d_device_id ds) \<Longrightarrow>
   length (filter (\<lambda>d. d_device_id d = dev) ds) = 1"
proof (induction ds)
  case Nil
  then show ?case by simp
next
  case (Cons d ds)
  show ?case
  proof (cases "d_device_id d = dev")
    case True
    with Cons.prems have "dev \<notin> set (map d_device_id ds)" by simp
    then have "filter (\<lambda>d. d_device_id d = dev) ds = []"
      by (auto simp: filter_empty_conv)
    with True show ?thesis by simp
  next
    case False
    with Cons show ?thesis by simp
  qed
qed

text \<open>
  C3 (fan-out completeness), as the code has it. When every submitted entry's user has
  at least one Device row, \<^verbatim>\<open>apiSubmitHandler\<close> succeeds and appends to the Entry
  Store, for each entry in turn, one copy per Device row of the entry's user, with the
  copy's device id rewritten to that row's device id. The copies of an entry that land
  in the mailbox of a device are as many as the user has Device rows for that device;
  there is exactly one when the user's Device rows carry pairwise distinct device ids.
\<close>

theorem submit_fan_out:
  assumes "\<forall>e\<in>set entries. user_devices s (e_user_id e) \<noteq> []"
  shows "snd (apiSubmitHandler now entries s) = Inr ()
    \<and> enc_history_entries (fst (apiSubmitHandler now entries s))
        = enc_history_entries s @ concat (map (fan_out s) entries)
    \<and> (\<forall>e dev. filter (\<lambda>r. e_device_id r = dev) (fan_out s e)
          = replicate (length (filter (\<lambda>d. d_device_id d = dev) (user_devices s (e_user_id e))))
              (e\<lparr>e_device_id := dev\<rparr>))
    \<and> (\<forall>e dev. distinct (map d_device_id (user_devices s (e_user_id e)))
                 \<and> dev \<in> set (map d_device_id (user_devices s (e_user_id e)))
          \<longrightarrow> filter (\<lambda>r. e_device_id r = dev) (fan_out s e) = [e\<lparr>e_device_id := dev\<rparr>])"
proof -
  from assms have tw: "takeWhile (\<lambda>e. user_devices s (e_user_id e) \<noteq> []) entries = entries"
    by (simp add: takeWhile_eq_all_conv)
  from assms have dw: "dropWhile (\<lambda>e. user_devices s (e_user_id e) \<noteq> []) entries = []"
    by simp
  have a: "snd (apiSubmitHandler now entries s) = Inr ()"
    by (simp add: submit_result dw)
  have b: "enc_history_entries (fst (apiSubmitHandler now entries s))
        = enc_history_entries s @ concat (map (fan_out s) entries)"
    by (simp add: submit_entries tw)
  have d: "filter (\<lambda>r. e_device_id r = dev) (fan_out s e) = [e\<lparr>e_device_id := dev\<rparr>]"
    if "distinct (map d_device_id (user_devices s (e_user_id e)))"
       "dev \<in> set (map d_device_id (user_devices s (e_user_id e)))" for e dev
    using distinct_device_once [OF that] by (simp add: fan_out_mailbox)
  show ?thesis using a b d fan_out_mailbox by blast
qed

text \<open>The three devices of the example each receive the one submitted entry once.\<close>

theorem submit_fan_out_witness:
  "user_devices three_devices (e_user_id (entry_at ''u'' ''A'' 10)) \<noteq> []
   \<and> distinct (map d_device_id (user_devices three_devices ''u''))
   \<and> snd (apiSubmitHandler 5 [entry_at ''u'' ''A'' 10] three_devices) = Inr ()
   \<and> enc_history_entries (fst (apiSubmitHandler 5 [entry_at ''u'' ''A'' 10] three_devices))
       = [entry_at ''u'' ''A'' 10, entry_at ''u'' ''B'' 10, entry_at ''u'' ''C'' 10]
   \<and> filter (\<lambda>r. e_device_id r = ''B'') (fan_out three_devices (entry_at ''u'' ''A'' 10))
       = [entry_at ''u'' ''B'' 10]"
proof -
  have h: "\<forall>e\<in>set [entry_at ''u'' ''A'' 10]. user_devices three_devices (e_user_id e) \<noteq> []"
    by code_simp
  have d: "distinct (map d_device_id (user_devices three_devices (e_user_id (entry_at ''u'' ''A'' 10))))
           \<and> ''B'' \<in> set (map d_device_id (user_devices three_devices (e_user_id (entry_at ''u'' ''A'' 10))))"
    by code_simp
  have d': "distinct (map d_device_id (user_devices three_devices ''u''))"
    by code_simp
  have old: "enc_history_entries three_devices = []"
    by code_simp
  have new: "concat (map (fan_out three_devices) [entry_at ''u'' ''A'' 10])
               = [entry_at ''u'' ''A'' 10, entry_at ''u'' ''B'' 10, entry_at ''u'' ''C'' 10]"
    by code_simp
  have upd: "(entry_at ''u'' ''A'' 10)\<lparr>e_device_id := ''B''\<rparr> = entry_at ''u'' ''B'' 10"
    by (simp add: entry_at_def)
  note inst = submit_fan_out [OF h, of 5]
  from inst have p1: "snd (apiSubmitHandler 5 [entry_at ''u'' ''A'' 10] three_devices) = Inr ()"
    by (rule conjunct1)
  from inst have "enc_history_entries (fst (apiSubmitHandler 5 [entry_at ''u'' ''A'' 10] three_devices))
          = enc_history_entries three_devices
            @ concat (map (fan_out three_devices) [entry_at ''u'' ''A'' 10])"
    by (rule conjunct2 [THEN conjunct1])
  then have p2: "enc_history_entries (fst (apiSubmitHandler 5 [entry_at ''u'' ''A'' 10] three_devices))
          = [entry_at ''u'' ''A'' 10, entry_at ''u'' ''B'' 10, entry_at ''u'' ''C'' 10]"
    by (simp only: old new append_Nil)
  from inst have "\<forall>e dev. distinct (map d_device_id (user_devices three_devices (e_user_id e)))
                 \<and> dev \<in> set (map d_device_id (user_devices three_devices (e_user_id e)))
          \<longrightarrow> filter (\<lambda>r. e_device_id r = dev) (fan_out three_devices e)
                = [e\<lparr>e_device_id := dev\<rparr>]"
    by (rule conjunct2 [THEN conjunct2, THEN conjunct2])
  with d have "filter (\<lambda>r. e_device_id r = ''B'') (fan_out three_devices (entry_at ''u'' ''A'' 10))
          = [(entry_at ''u'' ''A'' 10)\<lparr>e_device_id := ''B''\<rparr>]"
    by blast
  then have p3: "filter (\<lambda>r. e_device_id r = ''B'') (fan_out three_devices (entry_at ''u'' ''A'' 10))
          = [entry_at ''u'' ''B'' 10]"
    by (simp only: upd)
  from h have h': "user_devices three_devices (e_user_id (entry_at ''u'' ''A'' 10)) \<noteq> []"
    by simp
  from h' d' p1 p2 p3 show ?thesis by (intro conjI)
qed

text \<open>
  The claim as written speaks of one copy per device of the user's device set. A user
  who registered device \<open>A\<close> twice has the device set \<open>{A}\<close> and two Device rows, and
  the mailbox of \<open>A\<close> receives the submitted entry twice.
\<close>

theorem submit_fan_out_counterexample:
  "set (map d_device_id (user_devices registered_twice ''u'')) = {''A''}
   \<and> mailbox (fst (apiSubmitHandler 5 [entry_at ''u'' ''A'' 10] registered_twice)) ''A''
       = [entry_at ''u'' ''A'' 10, entry_at ''u'' ''A'' 10]"
  by code_simp

text \<open>
  C6 (submit for a user without devices). When some submitted entry's user has no
  Device row, \<^verbatim>\<open>apiSubmitHandler\<close> panics with the error of such an entry; when every
  entry's user has a Device row it does not panic. In both cases the rows it appends
  are the fan-out of the entries before the first one without devices: the fan-out of an
  entry without devices is empty, and the rows stored for its user are those stored
  before the request.
\<close>

theorem submit_zero_devices:
  "((\<exists>e\<in>set entries. user_devices s (e_user_id e) = []) \<longrightarrow>
      (\<exists>e\<in>set entries. user_devices s (e_user_id e) = []
         \<and> snd (apiSubmitHandler now entries s) = Inl (NoDevicesFound (e_user_id e))))
   \<and> ((\<forall>e\<in>set entries. user_devices s (e_user_id e) \<noteq> []) \<longrightarrow>
        snd (apiSubmitHandler now entries s) = Inr ())
   \<and> enc_history_entries (fst (apiSubmitHandler now entries s))
       = enc_history_entries s
         @ concat (map (fan_out s) (takeWhile (\<lambda>e. user_devices s (e_user_id e) \<noteq> []) entries))
   \<and> (\<forall>e. user_devices s (e_user_id e) = [] \<longrightarrow>
        fan_out s e = []
        \<and> filter (\<lambda>r. e_user_id r = e_user_id e)
             (enc_history_entries (fst (apiSubmitHandler now entries s)))
           = filter (\<lambda>r. e_user_id r = e_user_id e) (enc_history_entries s))"
proof -
  let ?has = "\<lambda>e. user_devices s (e_user_id e) \<noteq> []"
  have a: "\<exists>e\<in>set entries. user_devices s (e_user_id e) = []
             \<and> snd (apiSubmitHandler now entries s) = Inl (NoDevicesFound (e_user_id e))"
    if "\<exists>e\<in>set entries. user_devices s (e_user_id e) = []"
  proof -
    from that have ne: "dropWhile ?has entries \<noteq> []"
      by (simp add: dropWhile_eq_Nil_conv)
    then obtain e rest where dw: "dropWhile ?has entries = e # rest"
      by (cases "dropWhile ?has entries") simp_all
    from hd_dropWhile [OF ne] have "\<not> ?has e" by (simp add: dw)
    moreover have "e \<in> set (dropWhile ?has entries)" by (simp add: dw)
    then have "e \<in> set entries" by (rule set_dropWhileD)
    moreover have "snd (apiSubmitHandler now entries s) = Inl (NoDevicesFound (e_user_id e))"
      by (simp add: submit_result dw)
    ultimately show ?thesis by blast
  qed
  have b: "snd (apiSubmitHandler now entries s) = Inr ()"
    if "\<forall>e\<in>set entries. user_devices s (e_user_id e) \<noteq> []"
  proof -
    from that have dw: "dropWhile ?has entries = []" by simp
    show ?thesis by (simp add: submit_result dw)
  qed
  have c: "fan_out s e = []
        \<and> filter (\<lambda>r. e_user_id r = e_user_id e)
             (enc_history_entries (fst (apiSubmitHandler now entries s)))
           = filter (\<lambda>r. e_user_id r = e_user_id e) (enc_history_entries s)"
    if none: "user_devices s (e_user_id e) = []" for e
  proof -
    have "e_user_id r \<noteq> e_user_id e"
      if "r \<in> set (concat (map (fan_out s) (takeWhile ?has entries)))" for r
    proof -
      from that obtain x where x: "x \<in> set (takeWhile ?has entries)" "r \<in> set (fan_out s x)"
        by auto
      from x(1) have "?has x" by (rule set_takeWhileD [THEN conjunct2])
      with none x(2) show ?thesis by (auto dest: fan_out_user)
    qed
    then have "filter (\<lambda>r. e_user_id r = e_user_id e)
                 (concat (map (fan_out s) (takeWhile ?has entries))) = []"
      unfolding filter_empty_conv by blast
    with none show ?thesis by (simp add: submit_entries fan_out_def)
  qed
  show ?thesis
  proof (intro conjI impI allI)
    assume "\<exists>e\<in>set entries. user_devices s (e_user_id e) = []"
    then show "\<exists>e\<in>set entries. user_devices s (e_user_id e) = []
         \<and> snd (apiSubmitHandler now entries s) = Inl (NoDevicesFound (e_user_id e))"
      by (rule a)
  next
    assume "\<forall>e\<in>set entries. user_devices s (e_user_id e) \<noteq> []"
    then show "snd (apiSubmitHandler now entries s) = Inr ()" by (rule b)
  next
    show "enc_history_entries (fst (apiSubmitHandler now entries s))
       = enc_history_entries s
         @ concat (map (fan_out s) (takeWhile (\<lambda>e. user_devices s (e_user_id e) \<noteq> []) entries))"
      by (rule submit_entries)
  next
    fix e :: EncHistoryEntry assume "user_devices s (e_user_id e) = []"
    then show "fan_out s e = []" by (simp add: c)
  next
    fix e :: EncHistoryEntry assume "user_devices s (e_user_id e) = []"
    then show "filter (\<lambda>r. e_user_id r = e_user_id e)
             (enc_history_entries (fst (apiSubmitHandler now entries s)))
           = filter (\<lambda>r. e_user_id r = e_user_id e) (enc_history_entries s)"
      by (simp add: c)
  qed
qed

text \<open>A batch whose second entry belongs to the unregistered user \<open>v\<close> panics for
  \<open>v\<close> and stores no row for \<open>v\<close>; the batch of its first entry alone succeeds.\<close>

theorem submit_zero_devices_witness:
  "(\<exists>e\<in>set [entry_at ''u'' ''A'' 10, entry_at ''v'' ''X'' 11].
       user_devices three_devices (e_user_id e) = [])
   \<and> snd (apiSubmitHandler 5 [entry_at ''u'' ''A'' 10, entry_at ''v'' ''X'' 11] three_devices)
       = Inl (NoDevicesFound ''v'')
   \<and> filter (\<lambda>r. e_user_id r = ''v'')
        (enc_history_entries
           (fst (apiSubmitHandler 5 [entry_at ''u'' ''A'' 10, entry_at ''v'' ''X'' 11] three_devices)))
       = []
   \<and> user_devices three_devices (e_user_id (entry_at ''u'' ''A'' 10)) \<noteq> []
   \<and> snd (apiSubmitHandler 5 [entry_at ''u'' ''A'' 10] three_devices) = Inr ()"
proof -
  let ?es = "[entry_at ''u'' ''A'' 10, entry_at ''v'' ''X'' 11]"
  have h1: "\<exists>e\<in>set ?es. user_devices three_devices (e_user_id e) = []"
    by code_simp
  have h2: "\<forall>e\<in>set [entry_at ''u'' ''A'' 10]. user_devices three_devices (e_user_id e) \<noteq> []"
    by code_simp
  have u: "user_devices three_devices (e_user_id (entry_at ''u'' ''A'' 10)) \<noteq> []"
    by code_simp
  have v: "user_devices three_devices (e_user_id (entry_at ''v'' ''X'' 11)) = []"
    by code_simp
  have old: "filter (\<lambda>r. e_user_id r = ''v'') (enc_history_entries three_devices) = []"
    by code_simp
  have uv: "e_user_id (entry_at ''u'' ''A'' 10) = ''u''" "e_user_id (entry_at ''v'' ''X'' 11) = ''v''"
    by (simp_all add: entry_at_def)
  note inst = submit_zero_devices [of ?es three_devices 5]
  from inst h1 have "\<exists>e\<in>set ?es. user_devices three_devices (e_user_id e) = []
         \<and> snd (apiSubmitHandler 5 ?es three_devices) = Inl (NoDevicesFound (e_user_id e))"
    by (rule conjunct1 [THEN mp])
  with u have r1: "snd (apiSubmitHandler 5 ?es three_devices) = Inl (NoDevicesFound ''v'')"
    by (simp add: uv)
  from inst have "\<forall>e. user_devices three_devices (e_user_id e) = [] \<longrightarrow>
        fan_out three_devices e = []
        \<and> filter (\<lambda>r. e_user_id r = e_user_id e)
             (enc_history_entries (fst (apiSubmitHandler 5 ?es three_devices)))
           = filter (\<lambda>r. e_user_id r = e_user_id e) (enc_history_entries three_devices)"
    by (rule conjunct2 [THEN conjunct2, THEN conjunct2])
  then have "filter (\<lambda>r. e_user_id r = e_user_id (entry_at ''v'' ''X'' 11))
             (enc_history_entries (fst (apiSubmitHandler 5 ?es three_devices)))
           = filter (\<lambda>r. e_user_id r = e_user_id (entry_at ''v'' ''X'' 11))
               (enc_history_entries three_devices)"
    using v by (simp only: simp_thms)
  with old have r2: "filter (\<lambda>r. e_user_id r = ''v'')
              (enc_history_entries (fst (apiSubmitHandler 5 ?es three_devices))) = []"
    by (simp add: uv)
  from submit_zero_devices [of "[entry_at ''u'' ''A'' 10]" three_devices 5] h2
  have r3: "snd (apiSubmitHandler 5 [entry_at ''u'' ''A'' 10] three_devices) = Inr ()"
    by (rule conjunct2 [THEN conjunct1, THEN mp])
  from h1 u r1 r2 r3 show ?thesis by (intro conjI)
qed

section \<open>Results on registration and the dump exchange\<close>

lemma submit_dump_entries_frame:
  "submit_dump_entries userId req entries tx = Inr tx' \<Longrightarrow>
   devices tx' = devices tx \<and> usage_data tx' = usage_data tx
   \<and> dump_requests tx' = dump_requests tx \<and> deletion_requests tx' = deletion_requests tx
   \<and> enc_history_entries tx'
       = enc_history_entries tx @ map (\<lambda>e. e\<lparr>e_device_id := req\<rparr>) entries"
proof (induction entries arbitrary: tx)
  case Nil
  then show ?case by simp
next
  case (Cons e es)
  from Cons.prems have ok: "e_user_id e = userId"
    by (simp add: Let_def split: if_splits)
  with Cons.prems
  have "submit_dump_entries userId req es (create_entry (e\<lparr>e_device_id := req\<rparr>) tx) = Inr tx'"
    by (simp add: Let_def)
  from Cons.IH [OF this] show ?case by (simp add: create_entry_def)
qed

lemma submit_dump_entries_mismatch:
  "\<exists>e\<in>set entries. e_user_id e \<noteq> userId \<Longrightarrow>
   \<exists>e\<in>set entries. e_user_id e \<noteq> userId
      \<and> submit_dump_entries userId req entries tx = Inl (BatchUserMismatch (e_user_id e) userId)"
proof (induction entries arbitrary: tx)
  case Nil
  then show ?case by simp
next
  case (Cons e es)
  show ?case
  proof (cases "e_user_id e = userId")
    case True
    with Cons.prems have "\<exists>e\<in>set es. e_user_id e \<noteq> userId" by simp
    from Cons.IH [OF this, of "create_entry (e\<lparr>e_device_id := req\<rparr>) tx"] True
    show ?thesis by (simp add: Let_def)
  next
    case False
    then show ?thesis by (simp add: Let_def)
  qed
qed

lemma submit_dump_entries_accepts:
  "\<forall>e\<in>set entries. e_user_id e = userId \<Longrightarrow>
   \<exists>tx'. submit_dump_entries userId req entries tx = Inr tx'"
  by (induction entries arbitrary: tx) (simp_all add: Let_def)

lemma submit_dump_success:
  assumes "snd (apiSubmitDumpHandler user_id src req entries now s) = Inr ()"
  shows "dump_requests (fst (apiSubmitDumpHandler user_id src req entries now s))
           = filter (\<lambda>q. \<not> (dr_user_id q = user_id \<and> dr_requesting_device_id q = req))
               (dump_requests s)
         \<and> enc_history_entries (fst (apiSubmitDumpHandler user_id src req entries now s))
           = enc_history_entries s @ map (\<lambda>e. e\<lparr>e_device_id := req\<rparr>) entries
         \<and> devices (fst (apiSubmitDumpHandler user_id src req entries now s)) = devices s
         \<and> deletion_requests (fst (apiSubmitDumpHandler user_id src req entries now s))
           = deletion_requests s"
proof (cases "submit_dump_entries user_id req entries s")
  case (Inl err)
  with assms show ?thesis
    by (simp add: apiSubmitDumpHandler_def getRequiredQueryParam_def Transaction_def
             split: if_splits)
next
  case (Inr tx')
  from submit_dump_entries_frame [OF Inr] Inr assms show ?thesis
    by (simp add: apiSubmitDumpHandler_def getRequiredQueryParam_def Transaction_def Let_def
             split: if_splits)
qed

lemma submit_dump_failure:
  assumes "snd (apiSubmitDumpHandler user_id src req entries now s) \<noteq> Inr ()"
  shows "fst (apiSubmitDumpHandler user_id src req entries now s) = s"
  using assms
  by (cases "submit_dump_entries user_id req entries s")
     (simp_all add: apiSubmitDumpHandler_def getRequiredQueryParam_def Transaction_def Let_def
         split: if_splits)

text \<open>
  C4 (tenant isolation of dump submission). When the batch holds an entry whose user id
  differs from the \<^verbatim>\<open>user_id\<close> parameter, \<^verbatim>\<open>apiSubmitDumpHandler\<close> panics and the
  store it leaves is the store it found: no entry row is inserted, the dump requests of
  (user, requesting device) are still there, and with all three parameters present the
  panic is the one of the user id check.
\<close>

theorem submit_dump_tenant_isolation:
  assumes "\<exists>e\<in>set entries. e_user_id e \<noteq> user_id"
  shows "fst (apiSubmitDumpHandler user_id src req entries now s) = s
    \<and> isl (snd (apiSubmitDumpHandler user_id src req entries now s))
    \<and> enc_history_entries (fst (apiSubmitDumpHandler user_id src req entries now s))
        = enc_history_entries s
    \<and> dump_requests_for (fst (apiSubmitDumpHandler user_id src req entries now s)) user_id req
        = dump_requests_for s user_id req
    \<and> (user_id \<noteq> [] \<and> src \<noteq> [] \<and> req \<noteq> [] \<longrightarrow>
         (\<exists>e\<in>set entries. e_user_id e \<noteq> user_id
            \<and> snd (apiSubmitDumpHandler user_id src req entries now s)
                = Inl (BatchUserMismatch (e_user_id e) user_id)))"
proof -
  from submit_dump_entries_mismatch [OF assms, of req s]
  obtain e where e: "e \<in> set entries" "e_user_id e \<noteq> user_id"
    "submit_dump_entries user_id req entries s = Inl (BatchUserMismatch (e_user_id e) user_id)"
    by blast
  have r: "apiSubmitDumpHandler user_id src req entries now s
         = (s, if user_id = [] then Inl (MissingQueryParam ''user_id'')
               else if src = [] then Inl (MissingQueryParam ''source_device_id'')
               else if req = [] then Inl (MissingQueryParam ''requesting_device_id'')
               else Inl (BatchUserMismatch (e_user_id e) user_id))"
    by (simp add: apiSubmitDumpHandler_def getRequiredQueryParam_def Transaction_def e(3))
  have "\<exists>e\<in>set entries. e_user_id e \<noteq> user_id
            \<and> snd (apiSubmitDumpHandler user_id src req entries now s)
                = Inl (BatchUserMismatch (e_user_id e) user_id)"
    if "user_id \<noteq> [] \<and> src \<noteq> [] \<and> req \<noteq> []"
    using that e(1,2) by (auto simp: r)
  then show ?thesis by (simp add: r)
qed

text \<open>A batch with an entry of user \<open>v\<close>, sent as a dump for user \<open>u\<close>, leaves the
  store and the pending request of device \<open>B\<close> as they were.\<close>

theorem submit_dump_tenant_isolation_witness:
  "(\<exists>e\<in>set [entry_at ''u'' ''A'' 10, entry_at ''v'' ''A'' 11]. e_user_id e \<noteq> ''u'')
   \<and> fst (apiSubmitDumpHandler ''u'' ''A'' ''B''
            [entry_at ''u'' ''A'' 10, entry_at ''v'' ''A'' 11] 7 three_devices) = three_devices
   \<and> snd (apiSubmitDumpHandler ''u'' ''A'' ''B''
            [entry_at ''u'' ''A'' 10, entry_at ''v'' ''A'' 11] 7 three_devices)
       = Inl (BatchUserMismatch ''v'' ''u'')
   \<and> dump_requests_for three_devices ''u'' ''B'' \<noteq> []"
proof -
  let ?es = "[entry_at ''u'' ''A'' 10, entry_at ''v'' ''A'' 11]"
  have h: "\<exists>e\<in>set ?es. e_user_id e \<noteq> ''u''"
    by (simp add: entry_at_def)
  note inst = submit_dump_tenant_isolation [OF h, of "''A''" "''B''" 7 three_devices]
  from inst have p1: "fst (apiSubmitDumpHandler ''u'' ''A'' ''B'' ?es 7 three_devices) = three_devices"
    by (rule conjunct1)
  from inst have "''u'' \<noteq> [] \<and> ''A'' \<noteq> [] \<and> ''B'' \<noteq> [] \<longrightarrow>
         (\<exists>e\<in>set ?es. e_user_id e \<noteq> ''u''
            \<and> snd (apiSubmitDumpHandler ''u'' ''A'' ''B'' ?es 7 three_devices)
                = Inl (BatchUserMismatch (e_user_id e) ''u''))"
    by (rule conjunct2 [THEN conjunct2, THEN conjunct2, THEN conjunct2])
  then have p2: "snd (apiSubmitDumpHandler ''u'' ''A'' ''B'' ?es 7 three_devices)
       = Inl (BatchUserMismatch ''v'' ''u'')"
    by (simp add: entry_at_def)
  have p3: "dump_requests_for three_devices ''u'' ''B'' \<noteq> []"
    by code_simp
  from h p1 p2 p3 show ?thesis by (intro conjI)
qed

text \<open>
  C7 (registration seeding). With both parameters present, \<^verbatim>\<open>apiRegisterHandler\<close>
  returns without error and appends a Device row, whether or not the pair is registered
  already; it appends a DumpRequest of the new device exactly when the user had a Device
  row before the insertion. The entry rows and the deletion requests stay as they were.
\<close>

theorem register_seeding:
  assumes "user_id \<noteq> []" and "device_id \<noteq> []"
  shows "snd (apiRegisterHandler user_id device_id remoteAddr now s) = Inr ()
    \<and> devices (fst (apiRegisterHandler user_id device_id remoteAddr now s))
        = devices s @ [\<lparr>d_user_id = user_id, d_device_id = device_id,
                        d_registration_ip = remoteAddr, d_registration_date = now\<rparr>]
    \<and> dump_requests (fst (apiRegisterHandler user_id device_id remoteAddr now s))
        = (if 0 < length (user_devices s user_id)
           then dump_requests s @ [\<lparr>dr_user_id = user_id, dr_requesting_device_id = device_id,
                                   dr_request_time = now\<rparr>]
           else dump_requests s)
    \<and> enc_history_entries (fst (apiRegisterHandler user_id device_id remoteAddr now s))
        = enc_history_entries s
    \<and> deletion_requests (fst (apiRegisterHandler user_id device_id remoteAddr now s))
        = deletion_requests s"
  using assms
  by (simp add: apiRegisterHandler_def getRequiredQueryParam_def user_devices_def Let_def)

text \<open>The first registration of a user stores no dump request; registering the same
  device a second time stores a second Device row and a dump request.\<close>

theorem register_seeding_witness:
  "''u'' \<noteq> [] \<and> ''A'' \<noteq> []
   \<and> dump_requests (fst (apiRegisterHandler ''u'' ''A'' ''10.0.0.1'' 1 empty_db)) = []
   \<and> snd (apiRegisterHandler ''u'' ''A'' ''10.0.0.1'' 2
            (fst (apiRegisterHandler ''u'' ''A'' ''10.0.0.1'' 1 empty_db))) = Inr ()
   \<and> map d_device_id (devices (fst (apiRegisterHandler ''u'' ''A'' ''10.0.0.1'' 2
            (fst (apiRegisterHandler ''u'' ''A'' ''10.0.0.1'' 1 empty_db))))) = [''A'', ''A'']
   \<and> dump_requests (fst (apiRegisterHandler ''u'' ''A'' ''10.0.0.1'' 2
            (fst (apiRegisterHandler ''u'' ''A'' ''10.0.0.1'' 1 empty_db))))
       = [\<lparr>dr_user_id = ''u'', dr_requesting_device_id = ''A'', dr_request_time = 2\<rparr>]"
proof -
  have u: "''u'' \<noteq> []" and a: "''A'' \<noteq> []" by simp_all
  let ?s1 = "fst (apiRegisterHandler ''u'' ''A'' ''10.0.0.1'' 1 empty_db)"
  note first = register_seeding [OF u a, of "''10.0.0.1''" 1 empty_db]
  note second = register_seeding [OF u a, of "''10.0.0.1''" 2 ?s1]
  have e0: "devices empty_db = []" "dump_requests empty_db = []"
    by (simp_all add: empty_db_def)
  from first have d1: "devices ?s1 = [\<lparr>d_user_id = ''u'', d_device_id = ''A'',
                        d_registration_ip = ''10.0.0.1'', d_registration_date = 1\<rparr>]"
    by (simp add: e0)
  from first have q1: "dump_requests ?s1 = []"
    by (simp add: e0 user_devices_def)
  from second have p1: "snd (apiRegisterHandler ''u'' ''A'' ''10.0.0.1'' 2 ?s1) = Inr ()"
    by (rule conjunct1)
  from second have p2: "map d_device_id (devices (fst (apiRegisterHandler ''u'' ''A'' ''10.0.0.1'' 2 ?s1)))
      = [''A'', ''A'']"
    by (simp add: d1)
  from second have p3: "dump_requests (fst (apiRegisterHandler ''u'' ''A'' ''10.0.0.1'' 2 ?s1))
       = [\<lparr>dr_user_id = ''u'', dr_requesting_device_id = ''A'', dr_request_time = 2\<rparr>]"
    by (simp add: d1 q1 user_devices_def)
  from u a q1 p1 p2 p3 show ?thesis by (intro conjI)
qed

lemma applyDeletionRequestsToBackend_frame [simp]:
  "devices (fst (applyDeletionRequestsToBackend q s)) = devices s"
  "usage_data (fst (applyDeletionRequestsToBackend q s)) = usage_data s"
  "dump_requests (fst (applyDeletionRequestsToBackend q s)) = dump_requests s"
  "deletion_requests (fst (applyDeletionRequestsToBackend q s)) = deletion_requests s"
  by (simp_all add: applyDeletionRequestsToBackend_def)

lemma apply_all_frame [simp]:
  "devices (foldl (\<lambda>t request. fst (applyDeletionRequestsToBackend request t)) s qs) = devices s"
  "usage_data (foldl (\<lambda>t request. fst (applyDeletionRequestsToBackend request t)) s qs) = usage_data s"
  "dump_requests (foldl (\<lambda>t request. fst (applyDeletionRequestsToBackend request t)) s qs)
     = dump_requests s"
  "deletion_requests (foldl (\<lambda>t request. fst (applyDeletionRequestsToBackend request t)) s qs)
     = deletion_requests s"
  by (induction qs arbitrary: s; simp)+

lemma add_deletion_devices_frame [simp]:
  "devices (snd (add_deletion_devices request devs s)) = devices s"
  "usage_data (snd (add_deletion_devices request devs s)) = usage_data s"
  "dump_requests (snd (add_deletion_devices request devs s)) = dump_requests s"
  "enc_history_entries (snd (add_deletion_devices request devs s)) = enc_history_entries s"
  "del_user_id (fst (add_deletion_devices request devs s)) = del_user_id request"
  "del_messages (fst (add_deletion_devices request devs s)) = del_messages request"
  by (induction devs arbitrary: request s; simp add: Let_def)+

lemma query_frame:
  "devices (fst (apiQueryHandler user_id device_id now s)) = devices s
   \<and> dump_requests (fst (apiQueryHandler user_id device_id now s)) = dump_requests s
   \<and> deletion_requests (fst (apiQueryHandler user_id device_id now s)) = deletion_requests s"
  by (auto simp: apiQueryHandler_def getRequiredQueryParam_def Let_def increment_read_count_def
        split: sum.splits if_splits)

lemma add_deletion_frame:
  "devices (fst (addDeletionRequestHandler body s)) = devices s
   \<and> dump_requests (fst (addDeletionRequestHandler body s)) = dump_requests s"
  by (simp add: addDeletionRequestHandler_def Let_def split: prod.splits)
     (metis add_deletion_devices_frame(1,3) applyDeletionRequestsToBackend_frame(1,3) fst_conv snd_conv)

lemma handle_dump_requests:
  assumes "\<not> registers userId deviceId rq" and "dump_requests_for s userId deviceId = []"
  shows "dump_requests_for (handle rq s) userId deviceId = []"
proof (cases rq)
  case (Submit now entries)
  with assms show ?thesis by (simp add: dump_requests_for_def submit_frame)
next
  case (Bootstrap user_id device_id now)
  with assms show ?thesis
    by (simp add: dump_requests_for_def apiBootstrapHandler_def getRequiredQueryParam_def Let_def)
next
  case (Query user_id device_id now)
  with assms show ?thesis by (simp add: dump_requests_for_def query_frame)
next
  case (Register user_id device_id remoteAddr now)
  with assms show ?thesis
    by (auto simp: dump_requests_for_def apiRegisterHandler_def getRequiredQueryParam_def Let_def)
next
  case (GetDumpRequests user_id device_id)
  with assms show ?thesis
    by (simp add: dump_requests_for_def apiGetPendingDumpRequestsHandler_def
          getRequiredQueryParam_def)
next
  case (SubmitDump user_id source_device_id requesting_device_id entries now)
  let ?r = "apiSubmitDumpHandler user_id source_device_id requesting_device_id entries now s"
  show ?thesis
  proof (cases "snd ?r = Inr ()")
    case True
    from submit_dump_success [OF True] assms(2) have "dump_requests_for (fst ?r) userId deviceId = []"
      by (simp add: dump_requests_for_def filter_empty_conv)
    with SubmitDump show ?thesis by simp
  next
    case False
    from submit_dump_failure [OF False] assms(2) SubmitDump show ?thesis by simp
  qed
next
  case (AddDeletionRequest body)
  with assms show ?thesis by (simp add: dump_requests_for_def add_deletion_frame)
next
  case (GetDeletionRequests user_id device_id)
  with assms show ?thesis
    by (auto simp: dump_requests_for_def getDeletionRequestsHandler_def getRequiredQueryParam_def
          increment_deletion_read_count_def Let_def split: sum.splits if_splits)
next
  case TriggerCron
  with assms show ?thesis by (simp add: dump_requests_for_def cleanDatabase_def Let_def)
next
  case WipeDb
  with assms show ?thesis by (simp add: dump_requests_for_def wipeDbHandler_def)
qed

lemma serve_dump_requests:
  "\<forall>rq\<in>set requests. \<not> registers userId deviceId rq \<Longrightarrow>
   dump_requests_for s userId deviceId = [] \<Longrightarrow>
   dump_requests_for (serve requests s) userId deviceId = []"
proof (induction requests arbitrary: s)
  case Nil
  then show ?case by (simp add: serve_def)
next
  case (Cons rq requests)
  from Cons.prems have "dump_requests_for (handle rq s) userId deviceId = []"
    by (simp add: handle_dump_requests)
  with Cons.prems have "dump_requests_for (serve requests (handle rq s)) userId deviceId = []"
    by (intro Cons.IH) simp_all
  then show ?case by (simp add: serve_def)
qed

lemma pending_none:
  assumes "dump_requests_for t userId deviceId = []"
    and "snd (apiGetPendingDumpRequestsHandler userId peer t) = Inr qs"
  shows "\<forall>q\<in>set qs. dr_requesting_device_id q \<noteq> deviceId"
proof
  fix q assume q: "q \<in> set qs"
  from assms(2) have "qs = filter (\<lambda>q. dr_user_id q = userId \<and> dr_requesting_device_id q \<noteq> peer)
                          (dump_requests t)"
    by (auto simp: apiGetPendingDumpRequestsHandler_def getRequiredQueryParam_def split: if_splits)
  with q have "q \<in> set (dump_requests t)" "dr_user_id q = userId" by simp_all
  with assms(1) show "dr_requesting_device_id q \<noteq> deviceId"
    by (auto simp: dump_requests_for_def filter_empty_conv)
qed

text \<open>
  C8 (dump exchange), as the code has it. With both parameters present,
  \<^verbatim>\<open>apiGetPendingDumpRequestsHandler\<close> leaves the store as it is and returns exactly the
  DumpRequest rows of the user whose requesting device is not the polling device. When
  \<^verbatim>\<open>apiSubmitDumpHandler\<close> succeeds for (user, requesting device), the DumpRequest
  rows it leaves are the former rows of the other pairs, none is left for the pair, and
  after any further requests that do not register that device of that user again, none
  is stored for the pair and a poll of the dump requests by any device returns none for
  it.
\<close>

theorem dump_exchange:
  "(user_id \<noteq> [] \<and> device_id \<noteq> [] \<longrightarrow>
      apiGetPendingDumpRequestsHandler user_id device_id s
        = (s, Inr (filter (\<lambda>q. dr_user_id q = user_id \<and> dr_requesting_device_id q \<noteq> device_id)
                     (dump_requests s))))
   \<and> (snd (apiSubmitDumpHandler user_id src req entries now s) = Inr () \<longrightarrow>
        dump_requests (fst (apiSubmitDumpHandler user_id src req entries now s))
          = filter (\<lambda>q. \<not> (dr_user_id q = user_id \<and> dr_requesting_device_id q = req))
              (dump_requests s)
        \<and> dump_requests_for (fst (apiSubmitDumpHandler user_id src req entries now s)) user_id req
            = []
        \<and> (\<forall>requests peer qs.
              (\<forall>rq\<in>set requests. \<not> registers user_id req rq)
              \<and> snd (apiGetPendingDumpRequestsHandler user_id peer
                       (serve requests (fst (apiSubmitDumpHandler user_id src req entries now s))))
                  = Inr qs
              \<longrightarrow> dump_requests_for
                     (serve requests (fst (apiSubmitDumpHandler user_id src req entries now s)))
                     user_id req = []
                  \<and> (\<forall>q\<in>set qs. dr_requesting_device_id q \<noteq> req)))"
proof (intro conjI impI allI)
  assume "user_id \<noteq> [] \<and> device_id \<noteq> []"
  then show "apiGetPendingDumpRequestsHandler user_id device_id s
        = (s, Inr (filter (\<lambda>q. dr_user_id q = user_id \<and> dr_requesting_device_id q \<noteq> device_id)
                     (dump_requests s)))"
    by (simp add: apiGetPendingDumpRequestsHandler_def getRequiredQueryParam_def)
next
  let ?s' = "fst (apiSubmitDumpHandler user_id src req entries now s)"
  assume ok: "snd (apiSubmitDumpHandler user_id src req entries now s) = Inr ()"
  from submit_dump_success [OF ok]
  show left: "dump_requests ?s'
          = filter (\<lambda>q. \<not> (dr_user_id q = user_id \<and> dr_requesting_device_id q = req))
              (dump_requests s)"
    by (rule conjunct1)
  then show none: "dump_requests_for ?s' user_id req = []"
    by (simp add: dump_requests_for_def filter_empty_conv)
  fix requests peer qs
  assume later: "(\<forall>rq\<in>set requests. \<not> registers user_id req rq)
              \<and> snd (apiGetPendingDumpRequestsHandler user_id peer (serve requests ?s')) = Inr qs"
  with none show after: "dump_requests_for (serve requests ?s') user_id req = []"
    by (simp add: serve_dump_requests)
  from pending_none [OF after] later show "\<forall>q\<in>set qs. dr_requesting_device_id q \<noteq> req"
    by blast
qed

text \<open>With three devices registered, device \<open>A\<close> is shown the requests of \<open>B\<close> and
  \<open>C\<close>; once \<open>A\<close> has submitted a dump for \<open>B\<close>, and after a later poll by \<open>C\<close>,
  no request of \<open>B\<close> is stored and \<open>A\<close> is shown the request of \<open>C\<close> alone.\<close>

theorem dump_exchange_witness:
  "(''u'' \<noteq> [] \<and> ''A'' \<noteq> [])
   \<and> snd (apiGetPendingDumpRequestsHandler ''u'' ''A'' three_devices)
       = Inr [\<lparr>dr_user_id = ''u'', dr_requesting_device_id = ''B'', dr_request_time = 2\<rparr>,
              \<lparr>dr_user_id = ''u'', dr_requesting_device_id = ''C'', dr_request_time = 3\<rparr>]
   \<and> snd (apiSubmitDumpHandler ''u'' ''A'' ''B'' [entry_at ''u'' ''A'' 10] 7 three_devices) = Inr ()
   \<and> \<not> registers ''u'' ''B'' (Query ''u'' ''C'' 8)
   \<and> snd (apiGetPendingDumpRequestsHandler ''u'' ''A''
            (serve [Query ''u'' ''C'' 8]
               (fst (apiSubmitDumpHandler ''u'' ''A'' ''B'' [entry_at ''u'' ''A'' 10] 7 three_devices))))
       = Inr [\<lparr>dr_user_id = ''u'', dr_requesting_device_id = ''C'', dr_request_time = 3\<rparr>]
   \<and> dump_requests_for
        (serve [Query ''u'' ''C'' 8]
           (fst (apiSubmitDumpHandler ''u'' ''A'' ''B'' [entry_at ''u'' ''A'' 10] 7 three_devices)))
        ''u'' ''B'' = []"
proof -
  let ?submit = "apiSubmitDumpHandler ''u'' ''A'' ''B'' [entry_at ''u'' ''A'' 10] 7 three_devices"
  let ?qC = "\<lparr>dr_user_id = ''u'', dr_requesting_device_id = ''C'', dr_request_time = 3\<rparr>"
  have h1: "''u'' \<noteq> [] \<and> ''A'' \<noteq> []" by simp
  have h2: "snd ?submit = Inr ()" by code_simp
  have h3: "\<forall>rq\<in>set [Query ''u'' ''C'' 8]. \<not> registers ''u'' ''B'' rq" by simp
  have h4: "snd (apiGetPendingDumpRequestsHandler ''u'' ''A'' (serve [Query ''u'' ''C'' 8] (fst ?submit)))
              = Inr [?qC]"
    by code_simp
  have reqs: "filter (\<lambda>q. dr_user_id q = ''u'' \<and> dr_requesting_device_id q \<noteq> ''A'')
                (dump_requests three_devices)
              = [\<lparr>dr_user_id = ''u'', dr_requesting_device_id = ''B'', dr_request_time = 2\<rparr>, ?qC]"
    by code_simp
  note inst = dump_exchange [where user_id = "''u''" and device_id = "''A''" and s = three_devices
      and src = "''A''" and req = "''B''" and entries = "[entry_at ''u'' ''A'' 10]" and now = 7]
  from inst h1 have "apiGetPendingDumpRequestsHandler ''u'' ''A'' three_devices
        = (three_devices, Inr (filter (\<lambda>q. dr_user_id q = ''u'' \<and> dr_requesting_device_id q \<noteq> ''A'')
                     (dump_requests three_devices)))"
    by (rule conjunct1 [THEN mp])
  then have p1: "snd (apiGetPendingDumpRequestsHandler ''u'' ''A'' three_devices)
       = Inr [\<lparr>dr_user_id = ''u'', dr_requesting_device_id = ''B'', dr_request_time = 2\<rparr>, ?qC]"
    by (simp only: reqs snd_conv)
  from inst h2 have "\<forall>requests peer qs.
              (\<forall>rq\<in>set requests. \<not> registers ''u'' ''B'' rq)
              \<and> snd (apiGetPendingDumpRequestsHandler ''u'' peer (serve requests (fst ?submit)))
                  = Inr qs
              \<longrightarrow> dump_requests_for (serve requests (fst ?submit)) ''u'' ''B'' = []
                  \<and> (\<forall>q\<in>set qs. dr_requesting_device_id q \<noteq> ''B'')"
    by (rule conjunct2 [THEN mp, THEN conjunct2, THEN conjunct2])
  with h3 h4 have p2: "dump_requests_for (serve [Query ''u'' ''C'' 8] (fst ?submit)) ''u'' ''B'' = []"
    by blast
  have h3': "\<not> registers ''u'' ''B'' (Query ''u'' ''C'' 8)" by simp
  from h1 p1 h2 h3' h4 p2 show ?thesis by blast
qed

text \<open>
  The claim as written has every later poll return no request for the pair. A device
  that registers again after its dump was submitted is given a new request, and the
  next poll of a peer returns it.
\<close>

theorem dump_exchange_counterexample:
  "snd (apiSubmitDumpHandler ''u'' ''A'' ''B'' [entry_at ''u'' ''A'' 10] 7 three_devices) = Inr ()
   \<and> dump_requests_for
        (fst (apiSubmitDumpHandler ''u'' ''A'' ''B'' [entry_at ''u'' ''A'' 10] 7 three_devices))
        ''u'' ''B'' = []
   \<and> snd (apiGetPendingDumpRequestsHandler ''u'' ''A''
            (serve [Register ''u'' ''B'' ''10.0.0.2'' 8]
               (fst (apiSubmitDumpHandler ''u'' ''A'' ''B'' [entry_at ''u'' ''A'' 10] 7 three_devices))))
       = Inr [\<lparr>dr_user_id = ''u'', dr_requesting_device_id = ''C'', dr_request_time = 3\<rparr>,
              \<lparr>dr_user_id = ''u'', dr_requesting_device_id = ''B'', dr_request_time = 8\<rparr>]"
  by code_simp

section \<open>Results on deletion requests\<close>

lemma foldl_or_list_ex: "foldl (\<lambda>tx m. tx \<or> P m) b ms = (b \<or> list_ex P ms)"
  by (induction ms arbitrary: b) auto

lemma deletion_where_named_by: "deletion_where request r = named_by request r"
  by (simp add: deletion_where_def named_by_def message_where_def foldl_or_list_ex)



lemma apply_deletion_entries:
  "enc_history_entries (fst (applyDeletionRequestsToBackend request s))
     = filter (\<lambda>r. \<not> named_by request r) (enc_history_entries s)"
  by (simp add: applyDeletionRequestsToBackend_def deletion_where_named_by)





section \<open>Results on delivery\<close>

lemma apply_all_entries:
  "enc_history_entries (foldl (\<lambda>t request. fst (applyDeletionRequestsToBackend request t)) s qs)
     = filter (\<lambda>r. \<not> list_ex (\<lambda>q. named_by q r) qs) (enc_history_entries s)"
proof (induction qs arbitrary: s)
  case Nil
  show ?case by simp
next
  case (Cons q qs)
  have "filter (\<lambda>r. \<not> list_ex (\<lambda>q. named_by q r) qs) (filter (\<lambda>r. \<not> named_by q r) xs)
          = filter (\<lambda>r. \<not> list_ex (\<lambda>q. named_by q r) (q # qs)) xs" for xs
    by (induction xs) auto
  with Cons.IH [of "fst (applyDeletionRequestsToBackend q s)"] show ?case
    by (simp add: apply_deletion_entries)
qed

lemma list_ex_filter: "list_ex P (filter Q xs) = list_ex (\<lambda>x. Q x \<and> P x) xs"
  by (induction xs) auto

lemma increment_read_count_in_range:
  assumes "\<forall>x\<in>set (mailbox s device_id). e_read_count x < max_bigint"
  shows "increment_read_count device_id (updateUsageData u d n now s)
           = Inr ((updateUsageData u d n now s)
                    \<lparr>enc_history_entries := increment_mailbox device_id (enc_history_entries s)\<rparr>)"
proof -
  from assms have "\<not> list_ex (\<lambda>r. e_device_id r = device_id \<and> e_read_count r + 1 > max_bigint)
                      (enc_history_entries s)"
    by (auto simp: list_ex_iff mailbox_def)
  then show ?thesis by (simp add: increment_read_count_def increment_mailbox_def)
qed

lemma query_present:
  assumes "user_id \<noteq> []" and "device_id \<noteq> []"
    and "\<forall>x\<in>set (mailbox s device_id). e_read_count x < max_bigint"
  shows "enc_history_entries (fst (apiQueryHandler user_id device_id now s))
           = filter (\<lambda>r. \<not> pending_deletion s user_id device_id r)
               (increment_mailbox device_id (enc_history_entries s))"
    and "snd (apiQueryHandler user_id device_id now s)
           = Inr (filter (\<lambda>r. e_device_id r = device_id \<and> e_read_count r < 5)
                    (enc_history_entries (fst (apiQueryHandler user_id device_id now s))))"
  using assms(1,2)
  by (simp_all add: apiQueryHandler_def getRequiredQueryParam_def Let_def apply_all_entries
        increment_read_count_in_range [OF assms(3)] pending_deletion_def list_ex_filter)

lemma named_by_read_count [simp]:
  "named_by q (r\<lparr>e_read_count := n\<rparr>) = named_by q r"
  by (simp add: named_by_def)

lemma pending_deletion_read_count [simp]:
  "pending_deletion s u d (r\<lparr>e_read_count := n\<rparr>) = pending_deletion s u d r"
  by (simp add: pending_deletion_def)

lemma pending_deletion_cong:
  "deletion_requests t = deletion_requests s \<Longrightarrow> pending_deletion t = pending_deletion s"
  by (simp add: pending_deletion_def fun_eq_iff)

lemma pending_deletion_increment:
  "filter (\<lambda>r. \<not> pending_deletion s u d r) (increment_mailbox d rows)
     = increment_mailbox d (filter (\<lambda>r. \<not> pending_deletion s u d r) rows)"
  by (induction rows) (simp_all add: increment_mailbox_def)

lemma query_out_of_range:
  assumes "user_id \<noteq> []" and "device_id \<noteq> []"
    and "\<not> (\<forall>x\<in>set (mailbox s device_id). e_read_count x < max_bigint)"
  shows "apiQueryHandler user_id device_id now s
           = (updateUsageData user_id device_id 0 now s, Inl BigintOutOfRange)"
proof -
  from assms(3) have "list_ex (\<lambda>r. e_device_id r = device_id \<and> e_read_count r + 1 > max_bigint)
                        (enc_history_entries s)"
    by (auto simp: list_ex_iff mailbox_def)
  with assms(1,2) show ?thesis
    by (simp add: apiQueryHandler_def getRequiredQueryParam_def Let_def increment_read_count_def)
qed

text \<open>
  C10 (the user id in a poll), as the code has it. Two polls of the same store and
  device that differ in the user id they present increment the same rows, those of the
  device, whatever the user id: when every counter of the mailbox is below the greatest
  value of its column, each poll increments the rows of the device, then deletes the
  rows named by the deletion requests stored for the device and its own user id, and
  returns the rows of the device with \<open>readCount < 5\<close> that are left. On every store
  the two polls leave the same entry rows and give the same response whenever the
  deletion requests stored for the device under the two user ids name the same rows of
  the store, as they do when none is stored.
\<close>

theorem query_user_id:
  assumes "device_id \<noteq> []" and "user1 \<noteq> []" and "user2 \<noteq> []"
  shows "((\<forall>x\<in>set (mailbox s device_id). e_read_count x < max_bigint) \<longrightarrow>
        enc_history_entries (fst (apiQueryHandler user1 device_id now s))
           = filter (\<lambda>r. \<not> pending_deletion s user1 device_id r)
               (increment_mailbox device_id (enc_history_entries s))
      \<and> enc_history_entries (fst (apiQueryHandler user2 device_id now s))
           = filter (\<lambda>r. \<not> pending_deletion s user2 device_id r)
               (increment_mailbox device_id (enc_history_entries s))
      \<and> snd (apiQueryHandler user1 device_id now s)
           = Inr (filter (\<lambda>r. e_device_id r = device_id \<and> e_read_count r < 5)
                    (enc_history_entries (fst (apiQueryHandler user1 device_id now s))))
      \<and> snd (apiQueryHandler user2 device_id now s)
           = Inr (filter (\<lambda>r. e_device_id r = device_id \<and> e_read_count r < 5)
                    (enc_history_entries (fst (apiQueryHandler user2 device_id now s)))))
    \<and> ((\<forall>r\<in>set (enc_history_entries s).
           pending_deletion s user1 device_id r = pending_deletion s user2 device_id r)
        \<longrightarrow> enc_history_entries (fst (apiQueryHandler user1 device_id now s))
              = enc_history_entries (fst (apiQueryHandler user2 device_id now s))
            \<and> snd (apiQueryHandler user1 device_id now s)
              = snd (apiQueryHandler user2 device_id now s))"
proof -
  let ?q1 = "apiQueryHandler user1 device_id now s"
  let ?q2 = "apiQueryHandler user2 device_id now s"
  let ?range = "\<forall>x\<in>set (mailbox s device_id). e_read_count x < max_bigint"
  have exact: "enc_history_entries (fst ?q1)
           = filter (\<lambda>r. \<not> pending_deletion s user1 device_id r)
               (increment_mailbox device_id (enc_history_entries s))
      \<and> enc_history_entries (fst ?q2)
           = filter (\<lambda>r. \<not> pending_deletion s user2 device_id r)
               (increment_mailbox device_id (enc_history_entries s))
      \<and> snd ?q1 = Inr (filter (\<lambda>r. e_device_id r = device_id \<and> e_read_count r < 5)
                    (enc_history_entries (fst ?q1)))
      \<and> snd ?q2 = Inr (filter (\<lambda>r. e_device_id r = device_id \<and> e_read_count r < 5)
                    (enc_history_entries (fst ?q2)))"
    if range: ?range
    using query_present(1) [OF assms(2) assms(1) range, of now]
      query_present(1) [OF assms(3) assms(1) range, of now]
      query_present(2) [OF assms(2) assms(1) range, of now]
      query_present(2) [OF assms(3) assms(1) range, of now]
    by (intro conjI)
  have same: "enc_history_entries (fst ?q1) = enc_history_entries (fst ?q2) \<and> snd ?q1 = snd ?q2"
    if agree: "\<forall>r\<in>set (enc_history_entries s).
           pending_deletion s user1 device_id r = pending_deletion s user2 device_id r"
  proof (cases ?range)
    case True
    note e1 = query_present(1) [OF assms(2) assms(1) True, of now]
    note e2 = query_present(1) [OF assms(3) assms(1) True, of now]
    note r1 = query_present(2) [OF assms(2) assms(1) True, of now]
    note r2 = query_present(2) [OF assms(3) assms(1) True, of now]
    from agree have "filter (\<lambda>r. \<not> pending_deletion s user1 device_id r) (enc_history_entries s)
                   = filter (\<lambda>r. \<not> pending_deletion s user2 device_id r) (enc_history_entries s)"
      by (intro filter_cong) simp_all
    then have "enc_history_entries (fst ?q1) = enc_history_entries (fst ?q2)"
      by (simp only: e1 e2 pending_deletion_increment)
    then show ?thesis by (simp only: r1 r2 simp_thms)
  next
    case False
    show ?thesis
      by (simp add: query_out_of_range [OF assms(2) assms(1) False]
            query_out_of_range [OF assms(3) assms(1) False])
  qed
  from exact same show ?thesis by blast
qed

text \<open>With no deletion request stored, a poll of mailbox \<open>A\<close> under the user id
  \<open>w\<close> returns what the poll under the owner's user id \<open>u\<close> returns.\<close>

theorem query_user_id_witness:
  "''A'' \<noteq> [] \<and> ''u'' \<noteq> [] \<and> ''w'' \<noteq> []
   \<and> list_all (\<lambda>x. e_read_count x < max_bigint) (mailbox fanned_out ''A'')
   \<and> deletion_requests fanned_out = []
   \<and> snd (apiQueryHandler ''u'' ''A'' 9 fanned_out) = snd (apiQueryHandler ''w'' ''A'' 9 fanned_out)
   \<and> snd (apiQueryHandler ''w'' ''A'' 9 fanned_out)
       = Inr [(entry_at ''u'' ''A'' 10)\<lparr>e_read_count := 1\<rparr>]"
proof -
  have a: "''A'' \<noteq> []" and u: "''u'' \<noteq> []" and w: "''w'' \<noteq> []" by simp_all
  have range': "list_all (\<lambda>x. e_read_count x < max_bigint) (mailbox fanned_out ''A'')"
    by code_simp
  then have range: "\<forall>x\<in>set (mailbox fanned_out ''A''). e_read_count x < max_bigint"
    by (simp only: list_all_iff)
  have none: "deletion_requests fanned_out = []" by code_simp
  then have agree: "\<forall>r\<in>set (enc_history_entries fanned_out).
           pending_deletion fanned_out ''u'' ''A'' r = pending_deletion fanned_out ''w'' ''A'' r"
    by (simp add: pending_deletion_def)
  have rows: "filter (\<lambda>r. e_device_id r = ''A'' \<and> e_read_count r < 5)
                (filter (\<lambda>r. \<not> pending_deletion fanned_out ''w'' ''A'' r)
                   (increment_mailbox ''A'' (enc_history_entries fanned_out)))
              = [(entry_at ''u'' ''A'' 10)\<lparr>e_read_count := 1\<rparr>]"
    by code_simp
  note inst = query_user_id [OF a u w, of fanned_out 9]
  from inst agree have p1: "snd (apiQueryHandler ''u'' ''A'' 9 fanned_out)
                          = snd (apiQueryHandler ''w'' ''A'' 9 fanned_out)"
    by blast
  from inst range have "snd (apiQueryHandler ''w'' ''A'' 9 fanned_out)
           = Inr (filter (\<lambda>r. e_device_id r = ''A'' \<and> e_read_count r < 5)
                    (filter (\<lambda>r. \<not> pending_deletion fanned_out ''w'' ''A'' r)
                       (increment_mailbox ''A'' (enc_history_entries fanned_out))))"
    by simp
  then have p2: "snd (apiQueryHandler ''w'' ''A'' 9 fanned_out)
       = Inr [(entry_at ''u'' ''A'' 10)\<lparr>e_read_count := 1\<rparr>]"
    by (simp only: rows)
  from a u w range' none p1 p2 show ?thesis by (intro conjI)
qed

text \<open>
  The claim as written has the two polls return the same rows on every store. In the
  store where the entry of date 10 was submitted after the request naming \<open>(A, 10)\<close>,
  the poll of mailbox \<open>A\<close> under the user id \<open>u\<close> deletes the row and returns
  nothing, and the poll under the user id \<open>w\<close> returns the row.
\<close>

theorem query_user_id_counterexample:
  "snd (apiQueryHandler ''u'' ''A'' 9 resubmitted) = Inr []
   \<and> snd (apiQueryHandler ''w'' ''A'' 9 resubmitted)
       = Inr [(entry_at ''u'' ''A'' 10)\<lparr>e_read_count := 1\<rparr>]"
  by code_simp

lemma query_polls_append:
  "query_polls (ps @ [(u, t)]) d s = fst (apiQueryHandler u d t (query_polls ps d s))"
  by (induction ps d s rule: query_polls.induct) simp_all

lemma mailbox_after_query:
  assumes "user_id \<noteq> []" and "device_id \<noteq> []"
    and "\<forall>x\<in>set (mailbox s device_id). e_read_count x < max_bigint"
    and "y \<in> set (mailbox (fst (apiQueryHandler user_id device_id now s)) device_id)"
  shows "\<exists>x\<in>set (mailbox s device_id). e_read_count y = e_read_count x + 1"
proof -
  from assms(4) have dev: "e_device_id y = device_id"
    and "y \<in> set (enc_history_entries (fst (apiQueryHandler user_id device_id now s)))"
    by (simp_all add: mailbox_def)
  then have "y \<in> set (filter (\<lambda>r. \<not> pending_deletion s user_id device_id r)
                       (increment_mailbox device_id (enc_history_entries s)))"
    by (simp only: query_present(1) [OF assms(1,2,3)])
  then have "y \<in> set (increment_mailbox device_id (enc_history_entries s))"
    by (simp only: set_filter mem_Collect_eq)
  then have "y \<in> (\<lambda>r. if e_device_id r = device_id
                       then r\<lparr>e_read_count := e_read_count r + 1\<rparr> else r)
                 ` set (enc_history_entries s)"
    by (simp only: increment_mailbox_def set_map)
  then obtain x where x: "x \<in> set (enc_history_entries s)"
    and y: "y = (if e_device_id x = device_id then x\<lparr>e_read_count := e_read_count x + 1\<rparr> else x)"
    by (rule imageE)
  show ?thesis
  proof (cases "e_device_id x = device_id")
    case True
    with x have "x \<in> set (mailbox s device_id)" by (simp add: mailbox_def)
    moreover from True y have "y = x\<lparr>e_read_count := e_read_count x + 1\<rparr>"
      by (simp only: if_True simp_thms)
    then have "e_read_count y = e_read_count x + 1" by simp
    ultimately show ?thesis by (rule bexI [rotated])
  next
    case False
    with y have "y = x" by (simp only: if_False)
    with dev False show ?thesis by (simp only: simp_thms)
  qed
qed

lemma query_polls_keep:
  assumes "device_id \<noteq> []" and "0 \<le> n"
  shows "r \<in> set (enc_history_entries s) \<Longrightarrow> e_device_id r = device_id \<Longrightarrow>
         \<forall>p\<in>set polls. fst p \<noteq> [] \<and> \<not> pending_deletion s (fst p) device_id r \<Longrightarrow>
         \<forall>x\<in>set (mailbox s device_id). e_read_count x + int (length polls) + n \<le> max_bigint \<Longrightarrow>
         r\<lparr>e_read_count := e_read_count r + int (length polls)\<rparr>
            \<in> set (enc_history_entries (query_polls polls device_id s))
         \<and> deletion_requests (query_polls polls device_id s) = deletion_requests s
         \<and> (\<forall>x\<in>set (mailbox (query_polls polls device_id s) device_id).
               e_read_count x + n \<le> max_bigint)"
proof (induction polls arbitrary: s r)
  case Nil
  then show ?case by simp
next
  case (Cons p polls)
  obtain u t where p: "p = (u, t)" by (cases p)
  let ?s1 = "fst (apiQueryHandler u device_id t s)"
  let ?r1 = "r\<lparr>e_read_count := e_read_count r + 1\<rparr>"
  from Cons.prems(3) p have u: "u \<noteq> []" and np: "\<not> pending_deletion s u device_id r" by simp_all
  from Cons.prems(4) assms(2)
  have range: "\<forall>x\<in>set (mailbox s device_id). e_read_count x < max_bigint"
    by fastforce
  have d1: "deletion_requests ?s1 = deletion_requests s" by (simp add: query_frame)
  have "?r1 \<in> set (increment_mailbox device_id (enc_history_entries s))"
    using Cons.prems(1,2) by (force simp: increment_mailbox_def)
  with np have in1: "?r1 \<in> set (enc_history_entries ?s1)"
    by (simp add: query_present(1) [OF u assms(1) range])
  have dev1: "e_device_id ?r1 = device_id" using Cons.prems(2) by simp
  have rest: "\<forall>p\<in>set polls. fst p \<noteq> [] \<and> \<not> pending_deletion ?s1 (fst p) device_id ?r1"
    using Cons.prems(3) by (simp add: pending_deletion_cong [OF d1])
  have range1: "\<forall>y\<in>set (mailbox ?s1 device_id). e_read_count y + int (length polls) + n \<le> max_bigint"
  proof
    fix y assume "y \<in> set (mailbox ?s1 device_id)"
    from mailbox_after_query [OF u assms(1) range this]
    obtain x where "x \<in> set (mailbox s device_id)" "e_read_count y = e_read_count x + 1" by blast
    with Cons.prems(4) show "e_read_count y + int (length polls) + n \<le> max_bigint" by fastforce
  qed
  from Cons.IH [OF in1 dev1 rest range1]
  have "?r1\<lparr>e_read_count := e_read_count ?r1 + int (length polls)\<rparr>
            \<in> set (enc_history_entries (query_polls polls device_id ?s1))
         \<and> deletion_requests (query_polls polls device_id ?s1) = deletion_requests ?s1
         \<and> (\<forall>x\<in>set (mailbox (query_polls polls device_id ?s1) device_id).
               e_read_count x + n \<le> max_bigint)" .
  moreover have "?r1\<lparr>e_read_count := e_read_count ?r1 + int (length polls)\<rparr>
                 = r\<lparr>e_read_count := e_read_count r + int (length (p # polls))\<rparr>"
    by simp
  ultimately show ?case by (simp add: p d1 add.assoc)
qed

text \<open>
  C2 (bounded redelivery), as the code has it. Let a row lie in the mailbox of a device
  with \<open>readCount\<close> 0, let no counter of the mailbox be so great that the polls
  considered would take it beyond the greatest value of its column, and let the device
  poll \<^verbatim>\<open>query\<close> again and again, each poll with a user id under which no stored
  deletion request for the device names the row. Every poll increments the rows of the
  device, deletes the rows named by the requests stored for the device and the poll's
  user id, and returns exactly the rows of the device that are left with
  \<open>readCount < 5\<close>. The row is stored with \<open>readCount\<close> \<open>n\<close> after \<open>n\<close> polls, it
  is in the response of poll \<open>n + 1\<close> exactly when \<open>n < 4\<close> (polls 1 to 4),
  \<^verbatim>\<open>bootstrap\<close> for the row's user returns it after any number of polls, and a run of
  \<^verbatim>\<open>cleanDatabase\<close> keeps it exactly when \<open>n \<le> 10\<close>.
\<close>

theorem bounded_redelivery:
  assumes "device_id \<noteq> []"
    and "r \<in> set (enc_history_entries s)"
    and "e_device_id r = device_id"
    and "e_read_count r = 0"
    and "\<forall>p\<in>set (polls @ [(user_id, now)]). fst p \<noteq> [] \<and> \<not> pending_deletion s (fst p) device_id r"
    and "\<forall>x\<in>set (mailbox s device_id). e_read_count x + int (length polls) < max_bigint"
  shows "enc_history_entries (query_polls (polls @ [(user_id, now)]) device_id s)
           = filter (\<lambda>x. \<not> pending_deletion (query_polls polls device_id s) user_id device_id x)
               (increment_mailbox device_id (enc_history_entries (query_polls polls device_id s)))
    \<and> snd (apiQueryHandler user_id device_id now (query_polls polls device_id s))
           = Inr (filter (\<lambda>x. e_device_id x = device_id \<and> e_read_count x < 5)
                    (enc_history_entries (query_polls (polls @ [(user_id, now)]) device_id s)))
    \<and> r\<lparr>e_read_count := int (length polls)\<rparr>
         \<in> set (enc_history_entries (query_polls polls device_id s))
    \<and> ((r\<lparr>e_read_count := int (length polls) + 1\<rparr>
           \<in> set (filter (\<lambda>x. e_device_id x = device_id \<and> e_read_count x < 5)
                   (enc_history_entries (query_polls (polls @ [(user_id, now)]) device_id s))))
         = (length polls < 4))
    \<and> (e_user_id r \<noteq> [] \<and> dev \<noteq> [] \<longrightarrow>
          snd (apiBootstrapHandler (e_user_id r) dev t (query_polls polls device_id s))
            = Inr (filter (\<lambda>x. e_user_id x = e_user_id r)
                     (enc_history_entries (query_polls polls device_id s)))
          \<and> r\<lparr>e_read_count := int (length polls)\<rparr>
               \<in> set (filter (\<lambda>x. e_user_id x = e_user_id r)
                       (enc_history_entries (query_polls polls device_id s))))
    \<and> ((r\<lparr>e_read_count := int (length polls)\<rparr>
           \<in> set (enc_history_entries (fst (cleanDatabase (query_polls polls device_id s)))))
         = (length polls \<le> 10))"
proof -
  let ?t = "query_polls polls device_id s"
  let ?after = "query_polls (polls @ [(user_id, now)]) device_id s"
  let ?rk = "r\<lparr>e_read_count := int (length polls)\<rparr>"
  let ?rk1 = "r\<lparr>e_read_count := int (length polls) + 1\<rparr>"
  from assms(5) have u: "user_id \<noteq> []" by simp
  from assms(5) have before: "\<forall>p\<in>set polls. fst p \<noteq> [] \<and> \<not> pending_deletion s (fst p) device_id r"
    by simp
  from assms(6)
  have b1: "\<forall>x\<in>set (mailbox s device_id). e_read_count x + int (length polls) + 1 \<le> max_bigint"
    by fastforce
  from assms(6)
  have b0: "\<forall>x\<in>set (mailbox s device_id).
              e_read_count x + int (length (polls @ [(user_id, now)])) + 0 \<le> max_bigint"
    by fastforce
  have one: "(0::int) \<le> 1" and zero: "(0::int) \<le> 0" by simp_all
  note keep = query_polls_keep [OF assms(1) one assms(2,3) before b1]
  from keep assms(4) have k: "?rk \<in> set (enc_history_entries ?t)" by simp
  from keep have range: "\<forall>x\<in>set (mailbox ?t device_id). e_read_count x < max_bigint"
    by fastforce
  from query_polls_keep [OF assms(1) zero assms(2,3,5) b0] assms(4)
  have k1: "?rk1 \<in> set (enc_history_entries ?after)" by (simp add: add.commute)
  have after: "?after = fst (apiQueryHandler user_id device_id now ?t)"
    by (rule query_polls_append)
  have a: "enc_history_entries ?after
           = filter (\<lambda>x. \<not> pending_deletion ?t user_id device_id x)
               (increment_mailbox device_id (enc_history_entries ?t))"
    by (simp only: after query_present(1) [OF u assms(1) range])
  have b: "snd (apiQueryHandler user_id device_id now ?t)
           = Inr (filter (\<lambda>x. e_device_id x = device_id \<and> e_read_count x < 5)
                    (enc_history_entries ?after))"
    by (simp only: after query_present(2) [OF u assms(1) range])
  have c: "(?rk1 \<in> set (filter (\<lambda>x. e_device_id x = device_id \<and> e_read_count x < 5)
                   (enc_history_entries ?after))) = (length polls < 4)"
    using k1 assms(3) by auto
  have d: "snd (apiBootstrapHandler (e_user_id r) dev t ?t)
            = Inr (filter (\<lambda>x. e_user_id x = e_user_id r) (enc_history_entries ?t))
          \<and> ?rk \<in> set (filter (\<lambda>x. e_user_id x = e_user_id r) (enc_history_entries ?t))"
    if "e_user_id r \<noteq> [] \<and> dev \<noteq> []"
    using that k by (simp add: apiBootstrapHandler_def getRequiredQueryParam_def Let_def)
  have e: "(?rk \<in> set (enc_history_entries (fst (cleanDatabase ?t)))) = (length polls \<le> 10)"
    using k by (auto simp: cleanDatabase_def Let_def)
  from a b k c d e show ?thesis by blast
qed

text \<open>In the store of the three devices the copy of \<open>A\<close> is in the response of the
  fourth poll of \<open>A\<close> and not in the response of the fifth, after which it is still
  stored.\<close>

theorem bounded_redelivery_witness:
  "''A'' \<noteq> []
   \<and> entry_at ''u'' ''A'' 10 \<in> set (enc_history_entries fanned_out)
   \<and> \<not> pending_deletion fanned_out ''u'' ''A'' (entry_at ''u'' ''A'' 10)
   \<and> list_all (\<lambda>x. e_read_count x + 4 < max_bigint) (mailbox fanned_out ''A'')
   \<and> (entry_at ''u'' ''A'' 10)\<lparr>e_read_count := 4\<rparr>
        \<in> set (filter (\<lambda>x. e_device_id x = ''A'' \<and> e_read_count x < 5)
                (enc_history_entries
                   (query_polls ([(''u'', 6), (''u'', 7), (''u'', 8)] @ [(''u'', 9)]) ''A'' fanned_out)))
   \<and> (entry_at ''u'' ''A'' 10)\<lparr>e_read_count := 5\<rparr>
        \<notin> set (filter (\<lambda>x. e_device_id x = ''A'' \<and> e_read_count x < 5)
                (enc_history_entries
                   (query_polls ([(''u'', 6), (''u'', 7), (''u'', 8), (''u'', 9)] @ [(''u'', 11)])
                      ''A'' fanned_out)))
   \<and> (entry_at ''u'' ''A'' 10)\<lparr>e_read_count := 4\<rparr>
        \<in> set (enc_history_entries
                (query_polls [(''u'', 6), (''u'', 7), (''u'', 8), (''u'', 9)] ''A'' fanned_out))"
proof -
  let ?r = "entry_at ''u'' ''A'' 10"
  have a: "''A'' \<noteq> []" by simp
  have mem: "?r \<in> set (enc_history_entries fanned_out)" by code_simp
  have dev: "e_device_id ?r = ''A''" and rc: "e_read_count ?r = 0"
    by (simp_all add: entry_at_def)
  have np: "\<not> pending_deletion fanned_out ''u'' ''A'' ?r" by code_simp
  have range': "list_all (\<lambda>x. e_read_count x + 4 < max_bigint) (mailbox fanned_out ''A'')"
    by code_simp
  then have range: "\<forall>x\<in>set (mailbox fanned_out ''A''). e_read_count x + 4 < max_bigint"
    by (simp only: list_all_iff)
  have h3: "\<forall>p\<in>set ([(''u'', 6), (''u'', 7), (''u'', 8)] @ [(''u'', 9)]).
              fst p \<noteq> [] \<and> \<not> pending_deletion fanned_out (fst p) ''A'' ?r"
    using np by simp
  have h4: "\<forall>p\<in>set ([(''u'', 6), (''u'', 7), (''u'', 8), (''u'', 9)] @ [(''u'', 11)]).
              fst p \<noteq> [] \<and> \<not> pending_deletion fanned_out (fst p) ''A'' ?r"
    using np by simp
  from range have g3: "\<forall>x\<in>set (mailbox fanned_out ''A'').
       e_read_count x + int (length [(''u'', 6::int), (''u'', 7), (''u'', 8)]) < max_bigint"
    by fastforce
  from range have g4: "\<forall>x\<in>set (mailbox fanned_out ''A'').
       e_read_count x + int (length [(''u'', 6::int), (''u'', 7), (''u'', 8), (''u'', 9)]) < max_bigint"
    by simp
  note i3 = bounded_redelivery [where dev = "''A''" and t = 0, OF a mem dev rc h3 g3]
  note i4 = bounded_redelivery [where dev = "''A''" and t = 0, OF a mem dev rc h4 g4]
  have n3: "int (length [(''u'', 6::int), (''u'', 7), (''u'', 8)]) + 1 = 4" by simp
  have n4: "int (length [(''u'', 6::int), (''u'', 7), (''u'', 8), (''u'', 9)]) + 1 = 5"
    "int (length [(''u'', 6::int), (''u'', 7), (''u'', 8), (''u'', 9)]) = 4" by simp_all
  have l3: "length [(''u'', 6::int), (''u'', 7), (''u'', 8)] < 4" by simp
  have l4: "\<not> length [(''u'', 6::int), (''u'', 7), (''u'', 8), (''u'', 9)] < 4" by simp
  from i3 [THEN conjunct2, THEN conjunct2, THEN conjunct2, THEN conjunct1] l3
  have p1: "?r\<lparr>e_read_count := 4\<rparr>
        \<in> set (filter (\<lambda>x. e_device_id x = ''A'' \<and> e_read_count x < 5)
                (enc_history_entries
                   (query_polls ([(''u'', 6), (''u'', 7), (''u'', 8)] @ [(''u'', 9)]) ''A'' fanned_out)))"
    by (simp only: n3 simp_thms)
  from i4 [THEN conjunct2, THEN conjunct2, THEN conjunct2, THEN conjunct1] l4
  have p2: "?r\<lparr>e_read_count := 5\<rparr>
        \<notin> set (filter (\<lambda>x. e_device_id x = ''A'' \<and> e_read_count x < 5)
                (enc_history_entries
                   (query_polls ([(''u'', 6), (''u'', 7), (''u'', 8), (''u'', 9)] @ [(''u'', 11)])
                      ''A'' fanned_out)))"
    by (simp only: n4(1) simp_thms)
  from i4 [THEN conjunct2, THEN conjunct2, THEN conjunct1]
  have p3: "?r\<lparr>e_read_count := 4\<rparr>
        \<in> set (enc_history_entries
                (query_polls [(''u'', 6), (''u'', 7), (''u'', 8), (''u'', 9)] ''A'' fanned_out))"
    by (simp only: n4(2))
  from a mem np range' p1 p2 p3 show ?thesis by (intro conjI)
qed

text \<open>
  The claim as written has every row created with \<open>readCount\<close> 0 returned by the
  first four polls. The row submitted to mailbox \<open>A\<close> after the request naming
  \<open>(A, 10)\<close> was stored is deleted by the device's first poll, which returns nothing.
\<close>

theorem bounded_redelivery_counterexample:
  "entry_at ''u'' ''A'' 10 \<in> set (mailbox resubmitted ''A'')
   \<and> e_read_count (entry_at ''u'' ''A'' 10) = 0
   \<and> snd (apiQueryHandler ''u'' ''A'' 9 resubmitted) = Inr []
   \<and> mailbox (fst (apiQueryHandler ''u'' ''A'' 9 resubmitted)) ''A'' = []"
  by code_simp

section \<open>Results on the release resolver\<close>

lemma assert_urls_None:
  "(assert_urls get urls = None)
     = (\<forall>url\<in>set urls. \<exists>statusCode. get url = Inr statusCode \<and> statusCode \<noteq> 404)"
  by (induction urls) (auto split: sum.splits)

lemma assertValidUpdate_artifacts:
  "assertValidUpdate get (buildUpdateInfo version)
     = assert_urls get (map (release_url version) artifacts)"
  by (simp add: assertValidUpdate_def buildUpdateInfo_def artifacts_def)

lemma decrement_loop_find:
  "decrement_loop get initialVersion n version
     = (case find (\<lambda>c. assertValidUpdate get (buildUpdateInfo c) = None) (candidates n version) of
          None \<Rightarrow> initialVersion | Some c \<Rightarrow> c)"
  by (induction n arbitrary: version) (auto split: option.splits sum.splits)

lemma length_candidates: "length (candidates n version) \<le> n"
  by (induction n arbitrary: version) (auto split: sum.splits)

lemma decrementVersion_v050: "decrementVersion ''v0.50'' = Inr ''v0.49''"
  by code_simp

lemma decrementVersion_v049: "decrementVersion ''v0.49'' = Inr ''v0.48''"
  by code_simp

text \<open>
  C5 (version decrement fallback). A version is valid when every one of its eight
  artifact urls answers with a status other than 404. When \<open>v0.50\<close> and \<open>v0.49\<close> are
  invalid and \<open>v0.48\<close> is valid, \<^verbatim>\<open>decrementVersionIfInvalid\<close> returns \<open>v0.48\<close>. In
  general it returns the first valid version among the at most five it probes, and its
  argument when none of them is valid; in particular it returns its argument when the
  argument is invalid and cannot be decremented, as is the case for \<open>UNKNOWN\<close>, for a
  tag that does not split at dots into two parts, and for a second part that is not a
  number.
\<close>

theorem decrement_version_fallback:
  "(assertValidUpdate get (buildUpdateInfo ''v0.50'') \<noteq> None
      \<and> assertValidUpdate get (buildUpdateInfo ''v0.49'') \<noteq> None
      \<and> assertValidUpdate get (buildUpdateInfo ''v0.48'') = None
      \<longrightarrow> decrementVersionIfInvalid get ''v0.50'' = ''v0.48'')
   \<and> ((assertValidUpdate get (buildUpdateInfo version) = None)
        = (\<forall>artifact\<in>set artifacts. \<exists>statusCode.
             get (release_url version artifact) = Inr statusCode \<and> statusCode \<noteq> 404))
   \<and> decrementVersionIfInvalid get version
        = (case find (\<lambda>c. assertValidUpdate get (buildUpdateInfo c) = None) (candidates 5 version) of
             None \<Rightarrow> version | Some c \<Rightarrow> c)
   \<and> length (candidates 5 version) \<le> 5
   \<and> ((\<forall>c\<in>set (candidates 5 version). assertValidUpdate get (buildUpdateInfo c) \<noteq> None)
        \<longrightarrow> decrementVersionIfInvalid get version = version)
   \<and> (assertValidUpdate get (buildUpdateInfo version) \<noteq> None \<and> isl (decrementVersion version)
        \<longrightarrow> decrementVersionIfInvalid get version = version)
   \<and> (version = ''UNKNOWN'' \<or> length (split_on CHR ''.'' version) \<noteq> 2
         \<or> Atoi (split_on CHR ''.'' version ! 1) = None
        \<longrightarrow> isl (decrementVersion version))"
proof (intro conjI impI)
  assume "assertValidUpdate get (buildUpdateInfo ''v0.50'') \<noteq> None
      \<and> assertValidUpdate get (buildUpdateInfo ''v0.49'') \<noteq> None
      \<and> assertValidUpdate get (buildUpdateInfo ''v0.48'') = None"
  then show "decrementVersionIfInvalid get ''v0.50'' = ''v0.48''"
    by (auto simp: decrementVersionIfInvalid_def eval_nat_numeral
          decrementVersion_v050 decrementVersion_v049)
next
  show "(assertValidUpdate get (buildUpdateInfo version) = None)
        = (\<forall>artifact\<in>set artifacts. \<exists>statusCode.
             get (release_url version artifact) = Inr statusCode \<and> statusCode \<noteq> 404)"
    by (simp add: assertValidUpdate_artifacts assert_urls_None)
next
  show find: "decrementVersionIfInvalid get version
        = (case find (\<lambda>c. assertValidUpdate get (buildUpdateInfo c) = None) (candidates 5 version) of
             None \<Rightarrow> version | Some c \<Rightarrow> c)"
    by (simp only: decrementVersionIfInvalid_def decrement_loop_find)
  show "length (candidates 5 version) \<le> 5" by (rule length_candidates)
  {
    assume "\<forall>c\<in>set (candidates 5 version). assertValidUpdate get (buildUpdateInfo c) \<noteq> None"
    then have "find (\<lambda>c. assertValidUpdate get (buildUpdateInfo c) = None) (candidates 5 version)
                 = None"
      by (simp add: find_None_iff)
    then show "decrementVersionIfInvalid get version = version"
      by (simp only: find option.case)
  }
  {
    assume "assertValidUpdate get (buildUpdateInfo version) \<noteq> None \<and> isl (decrementVersion version)"
    then show "decrementVersionIfInvalid get version = version"
      by (auto simp: decrementVersionIfInvalid_def eval_nat_numeral isl_def)
  }
  {
    assume "version = ''UNKNOWN'' \<or> length (split_on CHR ''.'' version) \<noteq> 2
         \<or> Atoi (split_on CHR ''.'' version ! 1) = None"
    then show "isl (decrementVersion version)"
      by (auto simp: decrementVersion_def Let_def)
  }
qed

text \<open>With the artifacts of \<open>v0.48\<close> alone published the resolver steps from
  \<open>v0.50\<close> down to \<open>v0.48\<close>; with nothing published it returns its argument, after
  five probes for \<open>v0.50\<close> and after one for \<open>UNKNOWN\<close>.\<close>

theorem decrement_version_fallback_witness:
  "assertValidUpdate published_v048 (buildUpdateInfo ''v0.50'') \<noteq> None
   \<and> assertValidUpdate published_v048 (buildUpdateInfo ''v0.49'') \<noteq> None
   \<and> assertValidUpdate published_v048 (buildUpdateInfo ''v0.48'') = None
   \<and> decrementVersionIfInvalid published_v048 ''v0.50'' = ''v0.48''
   \<and> candidates 5 ''v0.50'' = [''v0.50'', ''v0.49'', ''v0.48'', ''v0.47'', ''v0.46'']
   \<and> decrementVersionIfInvalid nothing_published ''v0.50'' = ''v0.50''
   \<and> candidates 5 ''UNKNOWN'' = [''UNKNOWN'']
   \<and> decrementVersionIfInvalid nothing_published ''UNKNOWN'' = ''UNKNOWN''"
proof -
  have h: "assertValidUpdate published_v048 (buildUpdateInfo ''v0.50'') \<noteq> None
      \<and> assertValidUpdate published_v048 (buildUpdateInfo ''v0.49'') \<noteq> None
      \<and> assertValidUpdate published_v048 (buildUpdateInfo ''v0.48'') = None"
    by code_simp
  have c50: "candidates 5 ''v0.50'' = [''v0.50'', ''v0.49'', ''v0.48'', ''v0.47'', ''v0.46'']"
    by code_simp
  have cu: "candidates 5 ''UNKNOWN'' = [''UNKNOWN'']"
    by code_simp
  have never: "assertValidUpdate nothing_published info \<noteq> None" for info
    by (simp add: assertValidUpdate_def nothing_published_def)
  from decrement_version_fallback [of published_v048 "''v0.50''"] h
  have p1: "decrementVersionIfInvalid published_v048 ''v0.50'' = ''v0.48''"
    by (rule conjunct1 [THEN mp])
  have all50: "\<forall>c\<in>set (candidates 5 ''v0.50'').
                 assertValidUpdate nothing_published (buildUpdateInfo c) \<noteq> None"
    by (simp add: never)
  from decrement_version_fallback [of nothing_published "''v0.50''"] all50
  have p2: "decrementVersionIfInvalid nothing_published ''v0.50'' = ''v0.50''"
    by (rule conjunct2 [THEN conjunct2, THEN conjunct2, THEN conjunct2, THEN conjunct1, THEN mp])
  have u0: "''UNKNOWN'' = ''UNKNOWN'' \<or> length (split_on CHR ''.'' ''UNKNOWN'') \<noteq> 2
         \<or> Atoi (split_on CHR ''.'' ''UNKNOWN'' ! 1) = None"
    by simp
  from decrement_version_fallback [of nothing_published "''UNKNOWN''"] u0
  have "isl (decrementVersion ''UNKNOWN'')"
    by (rule conjunct2 [THEN conjunct2, THEN conjunct2, THEN conjunct2, THEN conjunct2,
          THEN conjunct2, THEN mp])
  then have unk: "assertValidUpdate nothing_published (buildUpdateInfo ''UNKNOWN'') \<noteq> None
             \<and> isl (decrementVersion ''UNKNOWN'')"
    by (simp add: never)
  from decrement_version_fallback [of nothing_published "''UNKNOWN''"] unk
  have p3: "decrementVersionIfInvalid nothing_published ''UNKNOWN'' = ''UNKNOWN''"
    by (rule conjunct2 [THEN conjunct2, THEN conjunct2, THEN conjunct2, THEN conjunct2,
          THEN conjunct1, THEN mp])
  from h c50 cu p1 p2 p3 show ?thesis by blast
qed

end
